theory Spec2Isabelle
  imports Complex_Main "HOL-Library.Char_ord" "HOL-Library.List_Lexorder"
begin

section \<open>Python values and library calls used by the downloader\<close>

text \<open>
  The development embeds \<^verbatim>\<open>download_all_comments.py\<close>. Python integers are \<open>int\<close>,
  Python strings are \<open>string\<close>, and the durations handed to \<^verbatim>\<open>time.sleep\<close> are \<open>real\<close>:
  with the default configuration the deterministic part of every wait is integer
  arithmetic, and the rounding of binary floating point is not modelled. Console output
  and the \<^verbatim>\<open>time.time()\<close> readings that only feed it are left out.
\<close>

datatype py_error =
    ValueError
  | ZeroDivisionError
  | TypeError
  | KeyError
  | JSONDecodeError
  | SystemExit int

subsection \<open>\<^verbatim>\<open>str\<close> and \<^verbatim>\<open>int\<close> on integers\<close>

definition digit_char :: "nat \<Rightarrow> char" where
  "digit_char d = ''0123456789'' ! d"

fun str_nat :: "nat \<Rightarrow> string" where
  "str_nat n = (if n < 10 then [digit_char n] else str_nat (n div 10) @ [digit_char (n mod 10)])"

declare str_nat.simps [simp del]

definition py_str :: "int \<Rightarrow> string" where
  "py_str i = (if i < 0 then CHR ''-'' # str_nat (nat (- i)) else str_nat (nat i))"

definition digit_val :: "char \<Rightarrow> nat option" where
  "digit_val c = map_of (zip ''0123456789'' [0, 1, 2, 3, 4, 5, 6, 7, 8, 9]) c"

fun parse_digits :: "string \<Rightarrow> nat \<Rightarrow> nat option" where
  "parse_digits [] acc = Some acc"
| "parse_digits (c # cs) acc =
     (case digit_val c of None \<Rightarrow> None | Some d \<Rightarrow> parse_digits cs (10 * acc + d))"

text \<open>
  \<^verbatim>\<open>int(s)\<close> on the strings \<^verbatim>\<open>str\<close> produces: an optional minus sign and at least one
  decimal digit. The program only ever applies \<^verbatim>\<open>int\<close> to the result of \<^verbatim>\<open>str\<close>.
\<close>

definition py_int :: "string \<Rightarrow> py_error + int" where
  "py_int s =
     (case s of
        [] \<Rightarrow> Inl ValueError
      | c # cs \<Rightarrow>
          if c = CHR ''-'' then
            (if cs = [] then Inl ValueError
             else case parse_digits cs 0 of
                    None \<Rightarrow> Inl ValueError
                  | Some n \<Rightarrow> Inr (- int n))
          else (case parse_digits s 0 of
                  None \<Rightarrow> Inl ValueError
                | Some n \<Rightarrow> Inr (int n)))"

subsection \<open>The format specification \<^verbatim>\<open>:05d\<close>\<close>

definition zfill :: "nat \<Rightarrow> string \<Rightarrow> string" where
  "zfill w s = replicate (w - length s) CHR ''0'' @ s"

text \<open>Zero padding is sign aware and five is a minimum width: longer numbers are not cut.\<close>

definition fmt_05d :: "int \<Rightarrow> string" where
  "fmt_05d i =
     (if i < 0 then CHR ''-'' # zfill 4 (str_nat (nat (- i))) else zfill 5 (str_nat (nat i)))"

subsection \<open>Truthiness, \<^verbatim>\<open>range\<close>, slices and sets\<close>

text \<open>\<^verbatim>\<open>while url:\<close> runs while the cursor is neither \<^verbatim>\<open>None\<close> nor the empty string.\<close>

definition truthy :: "string option \<Rightarrow> bool" where
  "truthy u = (case u of None \<Rightarrow> False | Some s \<Rightarrow> s \<noteq> [])"

text \<open>\<^verbatim>\<open>range(start, stop, step)\<close>; a zero step raises.\<close>

definition py_range :: "int \<Rightarrow> int \<Rightarrow> int \<Rightarrow> py_error + int list" where
  "py_range start stop step =
     (if step = 0 then Inl ValueError
      else if 0 < step then
        Inr (map (\<lambda>k. start + int k * step) [0..<nat ((stop - start + step - 1) div step)])
      else
        Inr (map (\<lambda>k. start + int k * step) [0..<nat ((start - stop - step - 1) div (- step))]))"

text \<open>\<^verbatim>\<open>xs[i:j]\<close> for \<open>0 \<le> i \<le> j\<close>, the only slices the program takes.\<close>

definition py_slice :: "'a list \<Rightarrow> int \<Rightarrow> int \<Rightarrow> 'a list" where
  "py_slice xs i j = take (nat (j - i)) (drop (nat i) xs)"

text \<open>
  A Python set of strings is a duplicate-free list. Python leaves the iteration order of
  a set open; the model fixes it to insertion order, and nothing below depends on it.
\<close>

definition py_set :: "string list \<Rightarrow> string list" where
  "py_set xs = remdups xs"

definition set_add :: "string \<Rightarrow> string list \<Rightarrow> string list" where
  "set_add x s = (if x \<in> set s then s else s @ [x])"

section \<open>Documents, files and the outside world\<close>

type_synonym comment = string
type_synonym path = string

record post_info =
  post_id :: int
  comment_count :: int

record checkpoint =
  completed_post_ids :: "string list"
  total_comments_downloaded :: int
  last_updated :: "string option"

record batch_entry =
  entry_post_id :: int
  expected_comment_count :: int
  actual_comment_count :: int
  status :: string
  comments :: "comment list"

text \<open>
  A file holds one parsed document. \<open>Partial\<close> is a file that was opened for writing and
  not yet written completely: it does not parse.
\<close>

datatype file_content =
    InputDoc "post_info list"
  | CheckpointDoc checkpoint
  | BatchDoc "batch_entry list"
  | LogText "string list"
  | Partial

record page_body =
  body_comments :: "comment list"
  next_page :: "string option"

text \<open>
  What one \<^verbatim>\<open>requests.get\<close> gives the code: a response with its status code and, when
  the body parses to an object, the comments and the cursor in it; or an exception.
\<close>

datatype http_outcome =
    Response int "page_body option"
  | Timeout
  | ConnectionError
  | OtherException

datatype fs_op =
    Open_w path
  | Dump path file_content
  | Rename path path
  | Append path string
  | Unlink path
  | Mkdir path

datatype event =
    Call_download string
  | Request string http_outcome
  | Sleep real
  | Fs fs_op

text \<open>
  The environment answers the \<open>n\<close>-th request of the run, draws the \<open>n\<close>-th number of
  \<^verbatim>\<open>random.random()\<close> and reads the clock for the \<open>n\<close>-th time.
\<close>

record env =
  respond :: "nat \<Rightarrow> string \<Rightarrow> http_outcome"
  rnd :: "nat \<Rightarrow> real"
  now :: "nat \<Rightarrow> string"

record world =
  fs :: "path \<Rightarrow> file_content option"
  trace :: "event list"
  requests_made :: nat
  rand_calls :: nat
  clock_reads :: nat

record args =
  batch_size :: int
  delay :: real
  batch_delay :: real
  max_retries :: int
  backoff_base :: real
  reset :: bool

definition INPUT_FILE :: path where
  "INPUT_FILE = ''posts_with_comments.json''"

definition OUTPUT_DIR :: path where
  "OUTPUT_DIR = ''comments_data''"

definition CHECKPOINT_FILE :: path where
  "CHECKPOINT_FILE = ''checkpoint.json''"

definition CHECKPOINT_TMP :: path where
  "CHECKPOINT_TMP = ''checkpoint.tmp''"

definition ERRORS_LOG :: path where
  "ERRORS_LOG = ''errors.log''"

definition BASE_URL :: string where
  "BASE_URL = ''https://feedback.minecraft.net''"

definition PER_PAGE :: int where
  "PER_PAGE = 100"

text \<open>File operations: POSIX semantics, \<^verbatim>\<open>rename\<close> replaces its target.\<close>

fun apply_op :: "fs_op \<Rightarrow> (path \<Rightarrow> file_content option) \<Rightarrow> (path \<Rightarrow> file_content option)" where
  "apply_op (Open_w p) f = f(p \<mapsto> Partial)"
| "apply_op (Dump p d) f = f(p \<mapsto> d)"
| "apply_op (Rename src dst) f =
     (case f src of None \<Rightarrow> f | Some c \<Rightarrow> (f(src := None))(dst \<mapsto> c))"
| "apply_op (Append p l) f =
     (case f p of
        None \<Rightarrow> f(p \<mapsto> LogText [l])
      | Some (LogText ls) \<Rightarrow> f(p \<mapsto> LogText (ls @ [l]))
      | Some _ \<Rightarrow> f(p \<mapsto> Partial))"
| "apply_op (Unlink p) f = f(p := None)"
| "apply_op (Mkdir p) f = f"

definition do_op :: "fs_op \<Rightarrow> world \<Rightarrow> world" where
  "do_op op w = w\<lparr>fs := apply_op op (fs w), trace := trace w @ [Fs op]\<rparr>"

text \<open>\<^verbatim>\<open>time.sleep\<close> raises on a negative duration.\<close>

definition py_sleep :: "real \<Rightarrow> world \<Rightarrow> py_error + world" where
  "py_sleep d w = (if d < 0 then Inl ValueError else Inr (w\<lparr>trace := trace w @ [Sleep d]\<rparr>))"

text \<open>\<^verbatim>\<open>random.uniform(a, b)\<close> is \<^verbatim>\<open>a + (b - a) * random()\<close>.\<close>

definition uniform :: "env \<Rightarrow> real \<Rightarrow> real \<Rightarrow> world \<Rightarrow> real \<times> world" where
  "uniform e a b w = (a + (b - a) * rnd e (rand_calls w), w\<lparr>rand_calls := Suc (rand_calls w)\<rparr>)"

section \<open>Checkpoint and error log\<close>

text \<open>
  \<^verbatim>\<open>load_checkpoint\<close> together with the two subscripts \<^verbatim>\<open>main\<close> applies to its result:
  a file that is not a checkpoint document fails in \<^verbatim>\<open>json.load\<close> or in the subscript.
\<close>

definition load_checkpoint :: "world \<Rightarrow> py_error + checkpoint" where
  "load_checkpoint w =
     (case fs w CHECKPOINT_FILE of
        None \<Rightarrow>
          Inr \<lparr>completed_post_ids = [], total_comments_downloaded = 0, last_updated = None\<rparr>
      | Some (CheckpointDoc c) \<Rightarrow> Inr c
      | Some (InputDoc _) \<Rightarrow> Inl KeyError
      | Some (BatchDoc _) \<Rightarrow> Inl TypeError
      | Some (LogText _) \<Rightarrow> Inl JSONDecodeError
      | Some Partial \<Rightarrow> Inl JSONDecodeError)"

text \<open>The file operations of one \<^verbatim>\<open>save_checkpoint\<close>, in the order the code issues them.\<close>

definition save_checkpoint_ops :: "checkpoint \<Rightarrow> fs_op list" where
  "save_checkpoint_ops c =
     [Open_w CHECKPOINT_TMP, Dump CHECKPOINT_TMP (CheckpointDoc c),
      Rename CHECKPOINT_TMP CHECKPOINT_FILE]"

definition save_checkpoint :: "env \<Rightarrow> checkpoint \<Rightarrow> world \<Rightarrow> checkpoint \<times> world" where
  "save_checkpoint e c w =
     (let c' = c\<lparr>last_updated := Some (now e (clock_reads w))\<rparr>;
          w1 = w\<lparr>clock_reads := Suc (clock_reads w)\<rparr>
      in (c', fold do_op (save_checkpoint_ops c') w1))"

definition reset_checkpoint :: "world \<Rightarrow> world" where
  "reset_checkpoint w =
     (if fs w CHECKPOINT_FILE \<noteq> None then do_op (Unlink CHECKPOINT_FILE) w else w)"

definition log_error :: "env \<Rightarrow> string \<Rightarrow> string \<Rightarrow> world \<Rightarrow> world" where
  "log_error e pid error_msg w =
     (let timestamp = now e (clock_reads w);
          w1 = w\<lparr>clock_reads := Suc (clock_reads w)\<rparr>
      in do_op (Append ERRORS_LOG
                  (''['' @ timestamp @ ''] post_id='' @ pid @ '' | '' @ error_msg)) w1)"

section \<open>The paginated fetch\<close>

datatype attempt_outcome =
    Success page_body
  | NotFound
  | Retry
  | Propagate py_error

text \<open>The handler \<^verbatim>\<open>except Exception\<close>: sleep for the base, then the next attempt.\<close>

definition except_Exception :: "real \<Rightarrow> world \<Rightarrow> attempt_outcome \<times> world" where
  "except_Exception bb w =
     (case py_sleep bb w of Inl err \<Rightarrow> (Propagate err, w) | Inr w' \<Rightarrow> (Retry, w'))"

text \<open>
  One pass through the body of \<^verbatim>\<open>for attempt in range(1, max_retries + 1)\<close>. A sleep
  inside the \<^verbatim>\<open>try\<close> block that raises is caught by \<^verbatim>\<open>except Exception\<close>; a sleep
  inside a handler that raises leaves the function.
\<close>

definition attempt :: "env \<Rightarrow> string \<Rightarrow> real \<Rightarrow> int \<Rightarrow> world \<Rightarrow> attempt_outcome \<times> world" where
  "attempt e url bb n w =
     (let outcome = respond e (requests_made w) url;
          w1 = w\<lparr>trace := trace w @ [Request url outcome],
                 requests_made := Suc (requests_made w)\<rparr>
      in case outcome of
           Response code body \<Rightarrow>
             if code = 200 then
               (case body of
                  Some b \<Rightarrow> (Success b, w1)
                | None \<Rightarrow> except_Exception bb w1)
             else if code = 403 \<or> code = 429 then
               (let (j, w2) = uniform e 0 3 w1 in
                case py_sleep (bb * 2 ^ nat (n - 1) + j) w2 of
                  Inr w3 \<Rightarrow> (Retry, w3)
                | Inl _ \<Rightarrow> except_Exception bb w2)
             else if code = 404 then (NotFound, w1)
             else
               (let (j, w2) = uniform e 0 2 w1 in
                case py_sleep (bb * of_int n + j) w2 of
                  Inr w3 \<Rightarrow> (Retry, w3)
                | Inl _ \<Rightarrow> except_Exception bb w2)
         | Timeout \<Rightarrow>
             (case py_sleep (bb * of_int n) w1 of
                Inr w2 \<Rightarrow> (Retry, w2)
              | Inl err \<Rightarrow> (Propagate err, w1))
         | ConnectionError \<Rightarrow>
             (let (j, w2) = uniform e 0 5 w1 in
              case py_sleep (bb * 2 ^ nat (n - 1) + j) w2 of
                Inr w3 \<Rightarrow> (Retry, w3)
              | Inl err \<Rightarrow> (Propagate err, w2))
         | OtherException \<Rightarrow> except_Exception bb w1)"

text \<open>The \<^verbatim>\<open>for\<close> loop over the attempts; \<open>Retry\<close> at its end is \<^verbatim>\<open>success == False\<close>.\<close>

fun attempt_loop :: "env \<Rightarrow> string \<Rightarrow> real \<Rightarrow> int list \<Rightarrow> world \<Rightarrow> attempt_outcome \<times> world" where
  "attempt_loop e url bb [] w = (Retry, w)"
| "attempt_loop e url bb (n # ns) w =
     (case attempt e url bb n w of
        (Retry, w') \<Rightarrow> attempt_loop e url bb ns w'
      | (r, w') \<Rightarrow> (r, w'))"

definition initial_url :: "string \<Rightarrow> string" where
  "initial_url pid =
     BASE_URL @ ''/api/v2/community/posts/'' @ pid @ ''/comments.json'' @
     ''?per_page='' @ py_str PER_PAGE @ ''&sort_by=created_at&sort_order=asc''"

text \<open>
  The loop \<^verbatim>\<open>while url:\<close>. It need not end: a server may hand out a cursor on every
  page. \<open>None\<close> is a fetch that never returns.
\<close>

partial_function (option) page_loop ::
  "env \<Rightarrow> string \<Rightarrow> real \<Rightarrow> int \<Rightarrow> real \<Rightarrow> string option \<Rightarrow> comment list \<Rightarrow> int \<Rightarrow> world \<Rightarrow>
   ((py_error + comment list \<times> string) \<times> world) option" where
  "page_loop e pid dl mr bb url all_comments page w =
     (case url of
        None \<Rightarrow> Some (Inr (all_comments, ''ok''), w)
      | Some u \<Rightarrow>
          if u = [] then Some (Inr (all_comments, ''ok''), w)
          else
            (case attempt_loop e u bb [1..mr] w of
               (Success b, w1) \<Rightarrow>
                 if truthy (next_page b) then
                   (case py_sleep dl w1 of
                      Inl err \<Rightarrow> Some (Inl err, w1)
                    | Inr w2 \<Rightarrow>
                        page_loop e pid dl mr bb (next_page b)
                          (all_comments @ body_comments b) (page + 1) w2)
                 else
                   page_loop e pid dl mr bb (next_page b)
                     (all_comments @ body_comments b) (page + 1) w1
             | (NotFound, w1) \<Rightarrow> Some (Inr (all_comments, ''404_not_found''), w1)
             | (Retry, w1) \<Rightarrow>
                 Some (Inr (all_comments, ''failed_page_'' @ py_str (page + 1)),
                       log_error e pid
                         (''Failed after '' @ py_str mr @ '' attempts on page '' @ py_str (page + 1))
                         w1)
             | (Propagate err, w1) \<Rightarrow> Some (Inl err, w1)))"

definition download_comments_for_post ::
  "env \<Rightarrow> string \<Rightarrow> real \<Rightarrow> int \<Rightarrow> real \<Rightarrow> world \<Rightarrow>
   ((py_error + comment list \<times> string) \<times> world) option" where
  "download_comments_for_post e pid dl mr bb w =
     page_loop e pid dl mr bb (Some (initial_url pid)) [] 0
       (w\<lparr>trace := trace w @ [Call_download pid]\<rparr>)"

section \<open>Batches and the run\<close>

definition batch_file :: "int \<Rightarrow> path" where
  "batch_file batch_num = OUTPUT_DIR @ ''/batches/batch_'' @ fmt_05d batch_num @ ''.json''"

definition save_batch :: "batch_entry list \<Rightarrow> int \<Rightarrow> world \<Rightarrow> path \<times> world" where
  "save_batch results batch_num w =
     (let w1 = do_op (Mkdir (OUTPUT_DIR @ ''/batches'')) w;
          w2 = do_op (Open_w (batch_file batch_num)) w1;
          w3 = do_op (Dump (batch_file batch_num) (BatchDoc results)) w2
      in (batch_file batch_num, w3))"

record run_state =
  completed :: "string list"
  ckpt :: checkpoint
  total_comments :: int
  batch_num :: int
  errors_count :: int
  batch_results :: "batch_entry list"
  batch_comments :: int

datatype run_result = Nothing_to_do | Finished run_state

text \<open>
  The body of \<^verbatim>\<open>for post_info in batch\<close> between the return of the fetch and the pause
  before the next post: the entry is appended to the batch, the counters and the
  completed set are updated, the checkpoint is saved and the error tally is kept.
  \<open>n\<close> is \<^verbatim>\<open>int(post_id)\<close>.
\<close>

definition record_outcome ::
  "env \<Rightarrow> post_info \<Rightarrow> int \<Rightarrow> comment list \<Rightarrow> string \<Rightarrow> run_state \<Rightarrow> world \<Rightarrow> run_state \<times> world" where
  "record_outcome e post n cs stat st w1 =
     (let entry = \<lparr>entry_post_id = n,
                   expected_comment_count = comment_count post,
                   actual_comment_count = int (length cs),
                   status = stat,
                   comments = cs\<rparr>;
          completed' = set_add (py_str (post_id post)) (completed st);
          total' = total_comments st + int (length cs);
          (ckpt', w2) =
            save_checkpoint e
              ((ckpt st)\<lparr>completed_post_ids := completed',
                         total_comments_downloaded := total'\<rparr>) w1
      in (st\<lparr>completed := completed',
             ckpt := ckpt',
             total_comments := total',
             errors_count :=
               (if stat \<noteq> ''ok'' \<and> stat \<noteq> ''404_not_found''
                then errors_count st + 1 else errors_count st),
             batch_results := batch_results st @ [entry],
             batch_comments := batch_comments st + int (length cs)\<rparr>, w2))"

text \<open>The loop \<^verbatim>\<open>for post_info in batch\<close>.\<close>

fun for_post_info ::
  "env \<Rightarrow> args \<Rightarrow> post_info list \<Rightarrow> run_state \<Rightarrow> world \<Rightarrow> ((py_error + run_state) \<times> world) option" where
  "for_post_info e a [] st w = Some (Inr st, w)"
| "for_post_info e a (post # posts) st w =
     (case download_comments_for_post e (py_str (post_id post))
             (delay a) (max_retries a) (backoff_base a) w of
        None \<Rightarrow> None
      | Some (Inl err, w1) \<Rightarrow> Some (Inl err, w1)
      | Some (Inr (cs, stat), w1) \<Rightarrow>
          (case py_int (py_str (post_id post)) of
             Inl err \<Rightarrow> Some (Inl err, w1)
           | Inr n \<Rightarrow>
               let (st', w2) = record_outcome e post n cs stat st w1;
                   (j, w3) = uniform e 0 0.2 w2
               in (case py_sleep (delay a + j) w3 of
                     Inl err \<Rightarrow> Some (Inl err, w3)
                   | Inr w4 \<Rightarrow> for_post_info e a posts st' w4)))"

text \<open>The loop \<^verbatim>\<open>for batch_start in range(0, len(remaining), args.batch_size)\<close>.\<close>

fun for_batch_start ::
  "env \<Rightarrow> args \<Rightarrow> post_info list \<Rightarrow> int list \<Rightarrow> run_state \<Rightarrow> world \<Rightarrow>
   ((py_error + run_state) \<times> world) option" where
  "for_batch_start e a remaining [] st w = Some (Inr st, w)"
| "for_batch_start e a remaining (batch_start # starts) st w =
     (let batch = py_slice remaining batch_start (batch_start + batch_size a) in
      case for_post_info e a batch (st\<lparr>batch_results := [], batch_comments := 0\<rparr>) w of
        None \<Rightarrow> None
      | Some (Inl err, w1) \<Rightarrow> Some (Inl err, w1)
      | Some (Inr st1, w1) \<Rightarrow>
          let (file, w2) = save_batch (batch_results st1) (batch_num st1) w1;
              st2 = st1\<lparr>batch_num := batch_num st1 + 1\<rparr>
          in if batch_start + batch_size a < int (length remaining) then
               (let (jitter, w3) = uniform e 0 2 w2 in
                case py_sleep (batch_delay a + jitter) w3 of
                  Inl err \<Rightarrow> Some (Inl err, w3)
                | Inr w4 \<Rightarrow> for_batch_start e a remaining starts st2 w4)
             else for_batch_start e a remaining starts st2 w2)"

definition main :: "env \<Rightarrow> args \<Rightarrow> world \<Rightarrow> ((py_error + run_result) \<times> world) option" where
  "main e a w0 =
     (let w = (if reset a then reset_checkpoint w0 else w0) in
      case fs w INPUT_FILE of
        None \<Rightarrow> Some (Inl (SystemExit 1), w)
      | Some (InputDoc all_posts) \<Rightarrow>
          (case load_checkpoint w of
             Inl err \<Rightarrow> Some (Inl err, w)
           | Inr ck \<Rightarrow>
               let completed0 = py_set (completed_post_ids ck);
                   remaining = filter (\<lambda>p. py_str (post_id p) \<notin> set completed0) all_posts
               in if remaining = [] then Some (Inr Nothing_to_do, w)
                  else
                    let w1 = do_op (Mkdir OUTPUT_DIR) w in
                    if batch_size a = 0 then Some (Inl ZeroDivisionError, w1)
                    else
                      (case py_range 0 (int (length remaining)) (batch_size a) of
                         Inl err \<Rightarrow> Some (Inl err, w1)
                       | Inr starts \<Rightarrow>
                           (case for_batch_start e a remaining starts
                                   \<lparr>completed = completed0,
                                    ckpt = ck,
                                    total_comments = total_comments_downloaded ck,
                                    batch_num = int (length completed0) div batch_size a + 1,
                                    errors_count = 0,
                                    batch_results = [],
                                    batch_comments = 0\<rparr> w1 of
                              None \<Rightarrow> None
                            | Some (Inl err, w') \<Rightarrow> Some (Inl err, w')
                            | Some (Inr st, w') \<Rightarrow> Some (Inr (Finished st), w'))))
      | Some (CheckpointDoc _) \<Rightarrow> Some (Inl KeyError, w)
      | Some (BatchDoc _) \<Rightarrow> Some (Inl TypeError, w)
      | Some (LogText _) \<Rightarrow> Some (Inl JSONDecodeError, w)
      | Some Partial \<Rightarrow> Some (Inl JSONDecodeError, w))"

section \<open>Reading a run from its trace\<close>

text \<open>
  The properties below are stated over the events a run appends to the trace: which
  identifiers were handed to \<open>download_comments_for_post\<close>, what the server answered,
  and which files were written.
\<close>

fun success_body :: "http_outcome \<Rightarrow> page_body option" where
  "success_body (Response code body) = (if code = 200 then body else None)"
| "success_body _ = None"

fun is_gone :: "http_outcome \<Rightarrow> bool" where
  "is_gone (Response code body) = (code = 404)"
| "is_gone _ = False"

text \<open>A failed attempt: neither a page nor the not-found signal, so the code retries.\<close>

definition is_failure :: "http_outcome \<Rightarrow> bool" where
  "is_failure out = (success_body out = None \<and> \<not> is_gone out)"

text \<open>\<^verbatim>\<open>random.random()\<close> draws from the half-open unit interval.\<close>

definition valid_env :: "env \<Rightarrow> bool" where
  "valid_env e = (\<forall>k. 0 \<le> rnd e k \<and> rnd e k < 1)"

fun calls :: "event list \<Rightarrow> string list" where
  "calls [] = []"
| "calls (Call_download pid # evs) = pid # calls evs"
| "calls (_ # evs) = calls evs"

fun outcomes :: "event list \<Rightarrow> http_outcome list" where
  "outcomes [] = []"
| "outcomes (Request u out # evs) = out # outcomes evs"
| "outcomes (_ # evs) = outcomes evs"

fun sleeps :: "event list \<Rightarrow> real list" where
  "sleeps [] = []"
| "sleeps (Sleep d # evs) = d # sleeps evs"
| "sleeps (_ # evs) = sleeps evs"

fun dumps :: "event list \<Rightarrow> (path \<times> batch_entry list) list" where
  "dumps [] = []"
| "dumps (Fs (Dump p (BatchDoc es)) # evs) = (p, es) # dumps evs"
| "dumps (_ # evs) = dumps evs"

definition page_comments :: "http_outcome \<Rightarrow> comment list" where
  "page_comments out = (case success_body out of None \<Rightarrow> [] | Some b \<Rightarrow> body_comments b)"

text \<open>Every record the server delivered, in order, and the number of pages that carried them.\<close>

definition delivered :: "event list \<Rightarrow> comment list" where
  "delivered evs = concat (map page_comments (outcomes evs))"

definition is_page :: "http_outcome \<Rightarrow> bool" where
  "is_page out = (success_body out \<noteq> None)"

definition pages_ok :: "event list \<Rightarrow> nat" where
  "pages_ok evs = length (filter is_page (outcomes evs))"

text \<open>The events of a fetch: requests, sleeps and lines appended to the error log.\<close>

fun net_event :: "event \<Rightarrow> bool" where
  "net_event (Request u out) = True"
| "net_event (Sleep d) = True"
| "net_event (Fs (Append p l)) = (p = ERRORS_LOG)"
| "net_event _ = False"

text \<open>The calls of the fetcher and the renames that publish a checkpoint, in order.\<close>

fun protocol_event :: "event \<Rightarrow> bool" where
  "protocol_event (Call_download pid) = True"
| "protocol_event (Fs (Rename src dst)) = (src = CHECKPOINT_TMP \<and> dst = CHECKPOINT_FILE)"
| "protocol_event _ = False"

definition protocol :: "event list \<Rightarrow> event list" where
  "protocol evs = filter protocol_event evs"



section \<open>Outcomes of the retry loop and of a fetch\<close>

text \<open>
  What the outcomes observed by one run of the retry loop look like for each result:
  failures, closed by a page or by the not-found signal, or failures only.
\<close>

definition loop_outcomes :: "attempt_outcome \<Rightarrow> http_outcome list \<Rightarrow> nat \<Rightarrow> bool" where
  "loop_outcomes r os n =
     (case r of
        Success b \<Rightarrow> os \<noteq> [] \<and> list_all is_failure (butlast os) \<and> success_body (last os) = Some b
      | NotFound \<Rightarrow> os \<noteq> [] \<and> list_all is_failure (butlast os) \<and> is_gone (last os)
      | Retry \<Rightarrow> list_all is_failure os \<and> length os = n
      | Propagate err \<Rightarrow> list_all is_failure os)"

text \<open>The line \<open>log_error\<close> appends for a page that ran out of attempts.\<close>

definition error_line :: "env \<Rightarrow> nat \<Rightarrow> string \<Rightarrow> int \<Rightarrow> int \<Rightarrow> string" where
  "error_line e clock pid mr page =
     ''['' @ now e clock @ ''] post_id='' @ pid @ '' | '' @
     ''Failed after '' @ py_str mr @ '' attempts on page '' @ py_str page"

text \<open>The last page came without a cursor.\<close>

definition ended_ok :: "string option \<Rightarrow> event list \<Rightarrow> bool" where
  "ended_ok url evs =
     (if outcomes evs = [] then \<not> truthy url
      else \<exists>b. success_body (last (outcomes evs)) = Some b \<and> \<not> truthy (next_page b))"

text \<open>The last event of the fetch is a request answered with the not-found signal.\<close>

definition ended_not_found :: "event list \<Rightarrow> bool" where
  "ended_not_found evs = (\<exists>pre u out. evs = pre @ [Request u out] \<and> is_gone out)"

text \<open>The last \<open>max_retries\<close> requests of the fetch all failed.\<close>

definition ended_exhausted :: "int \<Rightarrow> event list \<Rightarrow> bool" where
  "ended_exhausted mr evs =
     (\<exists>pre os. outcomes evs = pre @ os \<and> length os = nat mr \<and> list_all is_failure os)"

text \<open>One more than the number of pages delivered: the page the fetch gave up on.\<close>

definition failed_page :: "int \<Rightarrow> event list \<Rightarrow> int" where
  "failed_page page evs = page + int (pages_ok evs) + 1"

text \<open>
  How a fetch that started in world \<open>w\<close> with cursor \<open>url\<close> after \<open>page\<close> pages, appended
  the events \<open>evs\<close> and returned status \<open>s\<close> in world \<open>w'\<close> has ended.
\<close>

definition fetch_end ::
  "env \<Rightarrow> string \<Rightarrow> int \<Rightarrow> string option \<Rightarrow> int \<Rightarrow> world \<Rightarrow> event list \<Rightarrow> world \<Rightarrow> string \<Rightarrow> bool" where
  "fetch_end e pid mr url page w evs w' s =
     (s = ''ok'' \<and> fs w' = fs w \<and> ended_ok url evs
      \<or> s = ''404_not_found'' \<and> fs w' = fs w \<and> ended_not_found evs
      \<or> s = ''failed_page_'' @ py_str (failed_page page evs) \<and> ended_exhausted mr evs \<and>
        fs w' = apply_op (Append ERRORS_LOG
                   (error_line e (clock_reads w) pid mr (failed_page page evs))) (fs w))"

definition page_post ::
  "env \<Rightarrow> string \<Rightarrow> int \<Rightarrow> string option \<Rightarrow> comment list \<Rightarrow> int \<Rightarrow> world \<Rightarrow>
   ((py_error + comment list \<times> string) \<times> world) \<Rightarrow> bool" where
  "page_post e pid mr url acc page w y =
     (\<exists>evs. trace (snd y) = trace w @ evs \<and> list_all net_event evs \<and>
        requests_made (snd y) = requests_made w + length (outcomes evs) \<and>
        rand_calls w \<le> rand_calls (snd y) \<and>
        (\<forall>p. p \<noteq> ERRORS_LOG \<longrightarrow> fs (snd y) p = fs w p) \<and>
        (\<forall>cs s. fst y = Inr (cs, s) \<longrightarrow>
           cs = acc @ delivered evs \<and> fetch_end e pid mr url page w evs (snd y) s))"

text \<open>From request number \<open>N\<close> on, no page carries a cursor.\<close>

definition cursors_end :: "env \<Rightarrow> nat \<Rightarrow> bool" where
  "cursors_end e N =
     (\<forall>k\<ge>N. \<forall>u b. success_body (respond e k u) = Some b \<longrightarrow> \<not> truthy (next_page b))"

section \<open>Effects of the loops of the run\<close>

text \<open>The world after the pause between two posts: \<^verbatim>\<open>time.sleep(args.delay + random.uniform(0, 0.2))\<close>.\<close>

definition paused :: "env \<Rightarrow> args \<Rightarrow> world \<Rightarrow> world" where
  "paused e a w = w\<lparr>rand_calls := Suc (rand_calls w),
                    trace := trace w @ [Sleep (delay a + 0.2 * rnd e (rand_calls w))]\<rparr>"

text \<open>What the coordinator does for one post, as seen in the protocol events: the call of the fetcher, then the rename that publishes the checkpoint.\<close>

definition per_item :: "post_info \<Rightarrow> event list" where
  "per_item p = [Call_download (py_str (post_id p)), Fs (Rename CHECKPOINT_TMP CHECKPOINT_FILE)]"

text \<open>The effect of the inner loop over a list of posts, from state \<open>st\<close> and world \<open>w\<close> to \<open>st'\<close> and \<open>w'\<close>.\<close>

definition items_done :: "post_info list \<Rightarrow> run_state \<Rightarrow> world \<Rightarrow> run_state \<Rightarrow> world \<Rightarrow> bool" where
  "items_done posts st w st' w' =
     (\<exists>evs ents. trace w' = trace w @ evs \<and>
        protocol evs = concat (map per_item posts) \<and>
        dumps evs = [] \<and>
        batch_results st' = batch_results st @ ents \<and>
        map entry_post_id ents = map post_id posts \<and>
        completed st' = fold set_add (map (\<lambda>p. py_str (post_id p)) posts) (completed st) \<and>
        batch_num st' = batch_num st \<and>
        (\<forall>p. p \<noteq> CHECKPOINT_FILE \<and> p \<noteq> CHECKPOINT_TMP \<and> p \<noteq> ERRORS_LOG \<longrightarrow> fs w' p = fs w p) \<and>
        (posts = [] \<longrightarrow> st' = st \<and> w' = w) \<and>
        (posts \<noteq> [] \<longrightarrow> fs w' CHECKPOINT_FILE = Some (CheckpointDoc (ckpt st')) \<and>
                        completed_post_ids (ckpt st') = completed st'))"

text \<open>The group last written to a path by a list of dumps.\<close>

definition last_dump :: "(path \<times> batch_entry list) list \<Rightarrow> path \<Rightarrow> batch_entry list option" where
  "last_dump ds p = map_of (rev ds) p"

text \<open>The files the run writes that are not group files.\<close>

definition SPECIAL :: "path set" where
  "SPECIAL = {CHECKPOINT_FILE, CHECKPOINT_TMP, ERRORS_LOG}"

text \<open>The effect of the outer loop over a list of batch starts.\<close>

definition batches_done ::
  "args \<Rightarrow> post_info list \<Rightarrow> int list \<Rightarrow> run_state \<Rightarrow> world \<Rightarrow> run_state \<Rightarrow> world \<Rightarrow> bool" where
  "batches_done a remaining starts st w st' w' =
     (let batches = map (\<lambda>s. py_slice remaining s (s + batch_size a)) starts in
      \<exists>evs. trace w' = trace w @ evs \<and>
        protocol evs = concat (map per_item (concat batches)) \<and>
        map fst (dumps evs) = map (\<lambda>i. batch_file (batch_num st + int i)) [0..<length starts] \<and>
        map (\<lambda>d. map entry_post_id (snd d)) (dumps evs) = map (map post_id) batches \<and>
        batch_num st' = batch_num st + int (length starts) \<and>
        completed st' =
          fold set_add (map (\<lambda>p. py_str (post_id p)) (concat batches)) (completed st) \<and>
        (\<forall>p. p \<notin> SPECIAL \<longrightarrow>
           fs w' p = (case last_dump (dumps evs) p of
                        None \<Rightarrow> fs w p | Some es \<Rightarrow> Some (BatchDoc es))) \<and>
        (concat batches = [] \<longrightarrow> fs w' CHECKPOINT_FILE = fs w CHECKPOINT_FILE \<and>
           completed st' = completed st \<and> ckpt st' = ckpt st) \<and>
        (concat batches \<noteq> [] \<longrightarrow>
           fs w' CHECKPOINT_FILE = Some (CheckpointDoc (ckpt st')) \<and>
           completed_post_ids (ckpt st') = completed st'))"

text \<open>The world after the pause between two batches, taken only when more work remains.\<close>

definition batch_pause :: "env \<Rightarrow> args \<Rightarrow> post_info list \<Rightarrow> int \<Rightarrow> world \<Rightarrow> world" where
  "batch_pause e a remaining batch_start w =
     (if batch_start + batch_size a < int (length remaining)
      then w\<lparr>rand_calls := Suc (rand_calls w),
             trace := trace w @ [Sleep (batch_delay a + 2 * rnd e (rand_calls w))]\<rparr>
      else w)"

text \<open>The posts not yet completed, as \<^verbatim>\<open>main\<close> filters them at startup.\<close>

definition remaining_posts :: "checkpoint \<Rightarrow> post_info list \<Rightarrow> post_info list" where
  "remaining_posts ck all_posts =
     filter (\<lambda>p. py_str (post_id p) \<notin> set (py_set (completed_post_ids ck))) all_posts"

text \<open>The world after the optional reset of the checkpoint.\<close>

definition start_world :: "args \<Rightarrow> world \<Rightarrow> world" where
  "start_world a w0 = (if reset a then reset_checkpoint w0 else w0)"

text \<open>The local variables of \<^verbatim>\<open>main\<close> when the batch loop starts.\<close>

definition initial_state :: "args \<Rightarrow> checkpoint \<Rightarrow> run_state" where
  "initial_state a ck =
     \<lparr>completed = py_set (completed_post_ids ck),
      ckpt = ck,
      total_comments = total_comments_downloaded ck,
      batch_num = int (length (py_set (completed_post_ids ck))) div batch_size a + 1,
      errors_count = 0,
      batch_results = [],
      batch_comments = 0\<rparr>"

text \<open>The values of \<^verbatim>\<open>range(0, n, bs)\<close> for a positive step.\<close>

definition batch_starts :: "int \<Rightarrow> nat \<Rightarrow> int list" where
  "batch_starts bs n = map (\<lambda>k. int k * bs) [0..<nat ((int n + bs - 1) div bs)]"

text \<open>A configuration the run accepts: a positive batch size and no negative pause.\<close>

definition valid_args :: "args \<Rightarrow> bool" where
  "valid_args a = (0 < batch_size a \<and> 0 \<le> delay a \<and> 0 \<le> batch_delay a \<and> 0 \<le> backoff_base a)"


section \<open>A sample server and sample files\<close>

text \<open>A server that answers every request with one page of one comment and no cursor.\<close>

definition one_page :: page_body where
  "one_page = \<lparr>body_comments = [''first''], next_page = None\<rparr>"

definition ex_env :: env where
  "ex_env = \<lparr>respond = (\<lambda>n u. Response 200 (Some one_page)),
             rnd = (\<lambda>n. 0),
             now = (\<lambda>n. ''2026-01-01T00:00:00+00:00'')\<rparr>"


text \<open>A server on which every post is gone.\<close>

definition gone_env :: env where
  "gone_env = \<lparr>respond = (\<lambda>n u. Response 404 None),
               rnd = (\<lambda>n. 0),
               now = (\<lambda>n. ''2026-01-01T00:00:00+00:00'')\<rparr>"

text \<open>A configuration with batches of two, and an input document naming three posts.\<close>

definition ex_args :: args where
  "ex_args = \<lparr>batch_size = 2, delay = 0.4, batch_delay = 5, max_retries = 5,
              backoff_base = 10, reset = False\<rparr>"

definition ex_posts :: "post_info list" where
  "ex_posts = [\<lparr>post_id = 7, comment_count = 1\<rparr>, \<lparr>post_id = 8, comment_count = 0\<rparr>,
               \<lparr>post_id = 9, comment_count = 1\<rparr>]"

text \<open>A fresh start: the input document and nothing else on disk.\<close>

definition ex_world :: world where
  "ex_world = \<lparr>fs = [INPUT_FILE \<mapsto> InputDoc ex_posts], trace = [], requests_made = 0,
               rand_calls = 0, clock_reads = 0\<rparr>"

text \<open>A resumed start: the checkpoint names post 7 as completed and no group file exists.\<close>

definition ex_ckpt :: checkpoint where
  "ex_ckpt = \<lparr>completed_post_ids = [''7''], total_comments_downloaded = 1,
              last_updated = Some ''2025-12-31T00:00:00+00:00''\<rparr>"

definition resumed_world :: world where
  "resumed_world = \<lparr>fs = [INPUT_FILE \<mapsto> InputDoc ex_posts, CHECKPOINT_FILE \<mapsto> CheckpointDoc ex_ckpt],
                    trace = [], requests_made = 0, rand_calls = 0, clock_reads = 0\<rparr>"


text \<open>A disk on which group file 2 already exists, and a group to write under that number.\<close>

definition old_entry :: batch_entry where
  "old_entry = \<lparr>entry_post_id = 7, expected_comment_count = 1, actual_comment_count = 1,
                status = ''ok'', comments = [''first'']\<rparr>"

definition new_entry :: batch_entry where
  "new_entry = \<lparr>entry_post_id = 9, expected_comment_count = 1, actual_comment_count = 1,
                status = ''ok'', comments = [''first'']\<rparr>"

definition written_world :: world where
  "written_world = \<lparr>fs = [batch_file 2 \<mapsto> BatchDoc [old_entry]], trace = [],
                    requests_made = 0, rand_calls = 0, clock_reads = 0\<rparr>"

text \<open>The state of the run before its first post.\<close>

definition ex_state :: run_state where
  "ex_state = \<lparr>completed = [], ckpt = \<lparr>completed_post_ids = [], total_comments_downloaded = 0,
                                       last_updated = None\<rparr>,
               total_comments = 0, batch_num = 1, errors_count = 0, batch_results = [],
               batch_comments = 0\<rparr>"

section \<open>Decimal strings\<close>

lemma lt10_cases: "d < (10::nat) \<Longrightarrow> d = 0 \<or> d = 1 \<or> d = 2 \<or> d = 3 \<or> d = 4 \<or> d = 5 \<or> d = 6 \<or> d = 7 \<or> d = 8 \<or> d = 9"
  by arith


lemma digit_val_digit_char: "d < 10 \<Longrightarrow> digit_val (digit_char d) = Some d"
  using lt10_cases [of d] by (auto simp: digit_char_def digit_val_def)


lemma digit_char_eq: "a < 10 \<Longrightarrow> b < 10 \<Longrightarrow> digit_char a = digit_char b \<longleftrightarrow> a = b"
  by (metis digit_val_digit_char option.inject)

lemma digit_char_not_minus: "d < 10 \<Longrightarrow> digit_char d \<noteq> CHR ''-''"
  using lt10_cases [of d] by (auto simp: digit_char_def)

lemma parse_digits_append:
  "parse_digits (xs @ ys) acc =
     (case parse_digits xs acc of None \<Rightarrow> None | Some a \<Rightarrow> parse_digits ys a)"
  by (induction xs arbitrary: acc) (auto split: option.splits)

lemma parse_digits_str_nat: "parse_digits (str_nat n) 0 = Some n"
proof (induction n rule: str_nat.induct)
  case (1 n)
  show ?case
  proof (cases "n < 10")
    case True
    then show ?thesis
      by (subst str_nat.simps) (simp add: digit_val_digit_char)
  next
    case False
    with 1 have "parse_digits (str_nat (n div 10)) 0 = Some (n div 10)" by simp
    with False show ?thesis
      by (subst str_nat.simps) (simp add: parse_digits_append digit_val_digit_char)
  qed
qed

lemma str_nat_first: "\<exists>c cs. str_nat n = c # cs \<and> c \<noteq> CHR ''-''"
proof (induction n rule: str_nat.induct)
  case (1 n)
  show ?case
  proof (cases "n < 10")
    case True
    then show ?thesis
      by (subst str_nat.simps) (simp add: digit_char_not_minus)
  next
    case False
    with 1 obtain c cs where "str_nat (n div 10) = c # cs" "c \<noteq> CHR ''-''" by auto
    with False show ?thesis
      by (subst str_nat.simps) simp
  qed
qed

lemma py_int_py_str: "py_int (py_str i) = Inr i"
proof -
  obtain c cs where c: "str_nat (nat i) = c # cs" "c \<noteq> CHR ''-''"
    using str_nat_first by blast
  obtain c' cs' where c': "str_nat (nat (- i)) = c' # cs'"
    using str_nat_first by blast
  show ?thesis
  proof (cases "i < 0")
    case True
    have "parse_digits (c' # cs') 0 = Some (nat (- i))"
      using parse_digits_str_nat [of "nat (- i)"] c' by simp
    with True c' show ?thesis
      by (simp add: py_int_def py_str_def del: parse_digits.simps)
  next
    case False
    have "parse_digits (c # cs) 0 = Some (nat i)"
      using parse_digits_str_nat [of "nat i"] c by simp
    with False c show ?thesis
      by (simp add: py_int_def py_str_def del: parse_digits.simps)
  qed
qed









lemma parse_digits_zeros: "parse_digits (replicate k CHR ''0'' @ s) 0 = parse_digits s 0"
  by (induction k) (auto simp: digit_val_def)

lemma parse_zfill: "parse_digits (zfill w (str_nat n)) 0 = Some n"
  by (simp add: zfill_def parse_digits_zeros parse_digits_str_nat)

lemma zfill_first: "\<exists>c cs. zfill w (str_nat n) = c # cs \<and> c \<noteq> CHR ''-''"
proof -
  obtain c cs where "str_nat n = c # cs" "c \<noteq> CHR ''-''"
    using str_nat_first by blast
  then show ?thesis
    by (cases "w - length (str_nat n)") (auto simp: zfill_def)
qed

lemma fmt_05d_inj: "fmt_05d i = fmt_05d j \<Longrightarrow> i = j"
proof -
  assume eq: "fmt_05d i = fmt_05d j"
  obtain c cs where a: "zfill 5 (str_nat (nat i)) = c # cs" "c \<noteq> CHR ''-''"
    using zfill_first by blast
  obtain d ds where b: "zfill 5 (str_nat (nat j)) = d # ds" "d \<noteq> CHR ''-''"
    using zfill_first by blast
  consider "i < 0" "j < 0" | "0 \<le> i" "0 \<le> j" | "i < 0" "0 \<le> j" | "0 \<le> i" "j < 0"
    by linarith
  then show ?thesis
  proof cases
    case 1
    with eq have "zfill 4 (str_nat (nat (- i))) = zfill 4 (str_nat (nat (- j)))"
      by (simp add: fmt_05d_def)
    then have "Some (nat (- i)) = Some (nat (- j))"
      by (metis parse_zfill)
    with 1 show ?thesis by simp
  next
    case 2
    with eq have "zfill 5 (str_nat (nat i)) = zfill 5 (str_nat (nat j))"
      by (simp add: fmt_05d_def)
    then have "Some (nat i) = Some (nat j)"
      by (metis parse_zfill)
    with 2 show ?thesis by simp
  next
    case 3
    with eq b show ?thesis by (simp add: fmt_05d_def)
  next
    case 4
    with eq a show ?thesis by (simp add: fmt_05d_def)
  qed
qed




section \<open>The retry loop and the page loop\<close>

lemma calls_append: "calls (xs @ ys) = calls xs @ calls ys"
  by (induction xs rule: calls.induct) auto

lemma outcomes_append: "outcomes (xs @ ys) = outcomes xs @ outcomes ys"
  by (induction xs rule: outcomes.induct) auto

lemma sleeps_append: "sleeps (xs @ ys) = sleeps xs @ sleeps ys"
  by (induction xs rule: sleeps.induct) auto

lemma dumps_append: "dumps (xs @ ys) = dumps xs @ dumps ys"
  by (induction xs rule: dumps.induct) auto

lemma delivered_append: "delivered (xs @ ys) = delivered xs @ delivered ys"
  by (simp add: delivered_def outcomes_append)

lemma pages_ok_append: "pages_ok (xs @ ys) = pages_ok xs + pages_ok ys"
  by (simp add: pages_ok_def outcomes_append)

lemma protocol_append: "protocol (xs @ ys) = protocol xs @ protocol ys"
  by (simp add: protocol_def)

lemma net_calls: "list_all net_event evs \<Longrightarrow> calls evs = []"
  by (induction evs rule: calls.induct) auto

lemma net_dumps: "list_all net_event evs \<Longrightarrow> dumps evs = []"
  by (induction evs rule: dumps.induct) auto

lemma net_protocol: "list_all net_event evs \<Longrightarrow> protocol evs = []"
proof (induction evs)
  case Nil
  then show ?case by (simp add: protocol_def)
next
  case (Cons ev evs)
  then have "\<not> protocol_event ev"
    by (cases ev rule: net_event.cases) (auto simp: ERRORS_LOG_def CHECKPOINT_TMP_def)
  with Cons show ?case by (simp add: protocol_def)
qed


lemma attempt_gone:
  assumes "is_gone (respond e (requests_made w) u)"
  shows "attempt e u bb n w =
           (NotFound, w\<lparr>trace := trace w @ [Request u (respond e (requests_made w) u)],
                        requests_made := Suc (requests_made w)\<rparr>)"
  using assms
  by (cases "respond e (requests_made w) u") (auto simp: attempt_def)

lemma attempt_frame:
  assumes "attempt e u bb n w = (r, w')"
  shows "fs w' = fs w \<and> clock_reads w' = clock_reads w \<and>
         requests_made w' = Suc (requests_made w) \<and> rand_calls w \<le> rand_calls w' \<and>
         (\<exists>evs. trace w' = trace w @ Request u (respond e (requests_made w) u) # evs \<and>
                list_all net_event evs \<and> outcomes evs = [])"
  using assms
  by (cases "respond e (requests_made w) u")
     (auto simp: attempt_def except_Exception_def py_sleep_def uniform_def Let_def
           split: if_splits option.splits)

lemma attempt_result:
  assumes "attempt e u bb n w = (r, w')"
  shows "(case r of
            Success b \<Rightarrow> success_body (respond e (requests_made w) u) = Some b
          | NotFound \<Rightarrow> is_gone (respond e (requests_made w) u)
          | Retry \<Rightarrow> is_failure (respond e (requests_made w) u)
          | Propagate err \<Rightarrow> is_failure (respond e (requests_made w) u))"
  using assms
  by (cases "respond e (requests_made w) u")
     (auto simp: attempt_def except_Exception_def py_sleep_def uniform_def Let_def is_failure_def
           split: if_splits option.splits)

lemma attempt_no_propagate:
  assumes "attempt e u bb n w = (r, w')" "valid_env e" "0 \<le> bb" "1 \<le> n"
  shows "r \<noteq> Propagate err"
proof -
  have j: "0 \<le> rnd e (rand_calls w)" using assms(2) by (simp add: valid_env_def)
  have 1: "0 \<le> bb * of_int n" using assms(3,4) by simp
  have 2: "0 \<le> bb * 2 ^ nat (n - 1) + 5 * rnd e (rand_calls w)" using assms(3) j by simp
  show ?thesis
    using assms(1,3) 1 2
    by (cases "respond e (requests_made w) u")
       (auto simp: attempt_def except_Exception_def py_sleep_def uniform_def Let_def
             split: if_splits option.splits)
qed

lemma loop_outcomes_single:
  assumes "attempt e u bb n w = (r, w')" "r \<noteq> Retry"
  shows "loop_outcomes r [respond e (requests_made w) u] k"
  using attempt_result [OF assms(1)] assms(2)
  by (cases r) (auto simp: loop_outcomes_def)

lemma loop_outcomes_Cons:
  assumes "loop_outcomes r os n" "is_failure out"
  shows "loop_outcomes r (out # os) (Suc n)"
  using assms by (cases r) (auto simp: loop_outcomes_def)

lemma attempt_loop_trace:
  assumes "attempt_loop e u bb ns w = (r, w')"
  shows "fs w' = fs w \<and> clock_reads w' = clock_reads w \<and> rand_calls w \<le> rand_calls w' \<and>
         (\<exists>evs. trace w' = trace w @ evs \<and> list_all net_event evs \<and>
                requests_made w' = requests_made w + length (outcomes evs) \<and>
                loop_outcomes r (outcomes evs) (length ns))"
  using assms
proof (induction ns arbitrary: w)
  case Nil
  then show ?case by (auto simp: loop_outcomes_def)
next
  case (Cons n ns)
  obtain r1 w1 where a: "attempt e u bb n w = (r1, w1)" by (cases "attempt e u bb n w")
  from attempt_frame [OF a] obtain evs1 where f1:
    "fs w1 = fs w" "clock_reads w1 = clock_reads w" "requests_made w1 = Suc (requests_made w)"
    "trace w1 = trace w @ Request u (respond e (requests_made w) u) # evs1"
    "list_all net_event evs1" "outcomes evs1 = []" "rand_calls w \<le> rand_calls w1"
    by blast
  show ?case
  proof (cases "r1 = Retry")
    case True
    with a Cons.prems have rec: "attempt_loop e u bb ns w1 = (r, w')" by simp
    from Cons.IH [OF rec] obtain evs where f2:
      "fs w' = fs w1" "clock_reads w' = clock_reads w1" "trace w' = trace w1 @ evs"
      "list_all net_event evs" "requests_made w' = requests_made w1 + length (outcomes evs)"
      "loop_outcomes r (outcomes evs) (length ns)" "rand_calls w1 \<le> rand_calls w'"
      by blast
    have fail: "is_failure (respond e (requests_made w) u)"
      using attempt_result [OF a] True by simp
    let ?evs = "Request u (respond e (requests_made w) u) # evs1 @ evs"
    have "trace w' = trace w @ ?evs" using f1 f2 by simp
    moreover have "list_all net_event ?evs" using f1 f2 by simp
    moreover have "requests_made w' = requests_made w + length (outcomes ?evs)"
      using f1 f2 by (simp add: outcomes_append)
    moreover have "loop_outcomes r (outcomes ?evs) (length (n # ns))"
      using f1 f2 fail by (simp add: outcomes_append loop_outcomes_Cons)
    ultimately show ?thesis using f1 f2 by (metis order_trans)
  next
    case False
    with a Cons.prems have res: "r = r1" "w' = w1" by (cases r1; simp)+
    let ?evs = "Request u (respond e (requests_made w) u) # evs1"
    have "trace w' = trace w @ ?evs" using f1 res by simp
    moreover have "list_all net_event ?evs" using f1 by simp
    moreover have "requests_made w' = requests_made w + length (outcomes ?evs)"
      using f1 res by simp
    moreover have "loop_outcomes r (outcomes ?evs) (length (n # ns))"
      using f1 loop_outcomes_single [OF a False] res by simp
    ultimately show ?thesis using f1 res by metis
  qed
qed

lemma attempt_loop_success_index:
  assumes "attempt_loop e u bb ns w = (Success b, w')"
  shows "\<exists>k. requests_made w \<le> k \<and> k < requests_made w' \<and> success_body (respond e k u) = Some b"
  using assms
proof (induction ns arbitrary: w)
  case Nil
  then show ?case by simp
next
  case (Cons n ns)
  obtain r1 w1 where a: "attempt e u bb n w = (r1, w1)" by (cases "attempt e u bb n w")
  have rm: "requests_made w1 = Suc (requests_made w)" using attempt_frame [OF a] by simp
  show ?case
  proof (cases "r1 = Retry")
    case True
    with a Cons.prems have "attempt_loop e u bb ns w1 = (Success b, w')" by simp
    from Cons.IH [OF this] rm show ?thesis by (metis Suc_leD)
  next
    case False
    with a Cons.prems have res: "r1 = Success b" "w' = w1" by (cases r1; simp)+
    with attempt_result [OF a] rm show ?thesis by auto
  qed
qed

lemma attempt_loop_no_propagate:
  assumes "attempt_loop e u bb ns w = (r, w')" "valid_env e" "0 \<le> bb" "\<forall>n\<in>set ns. 1 \<le> n"
  shows "r \<noteq> Propagate err"
  using assms(1,4)
proof (induction ns arbitrary: w)
  case Nil
  then show ?case by auto
next
  case (Cons n ns)
  obtain r1 w1 where a: "attempt e u bb n w = (r1, w1)" by (cases "attempt e u bb n w")
  have np: "r1 \<noteq> Propagate err" using attempt_no_propagate [OF a assms(2,3)] Cons.prems(2) by simp
  show ?case
  proof (cases "r1 = Retry")
    case True
    with a Cons.prems have "attempt_loop e u bb ns w1 = (r, w')" by simp
    then show ?thesis using Cons.IH Cons.prems(2) by simp
  next
    case False
    with a Cons.prems have "r = r1" by (cases r1; simp)
    with np show ?thesis by simp
  qed
qed

text \<open>Forward: a run of failed attempts is skipped over.\<close>

lemma attempt_failure_retry:
  assumes "is_failure (respond e (requests_made w) u)" "valid_env e" "0 \<le> bb" "1 \<le> n"
  shows "\<exists>w'. attempt e u bb n w = (Retry, w')"
proof -
  obtain r w' where a: "attempt e u bb n w = (r, w')" by (cases "attempt e u bb n w")
  have "r \<noteq> Propagate err" for err using attempt_no_propagate [OF a assms(2,3,4)] .
  moreover have "r \<noteq> NotFound" "r \<noteq> Success b" for b
    using attempt_result [OF a] assms(1) by (auto simp: is_failure_def)
  ultimately have "r = Retry" by (cases r) auto
  with a show ?thesis by blast
qed

lemma attempt_loop_failures:
  assumes "valid_env e" "0 \<le> bb" "\<forall>n\<in>set ns. 1 \<le> n" "k \<le> length ns"
    "\<forall>i<k. is_failure (respond e (requests_made w + i) u)"
  shows "\<exists>w'. attempt_loop e u bb ns w = attempt_loop e u bb (drop k ns) w' \<and>
              requests_made w' = requests_made w + k \<and> fs w' = fs w \<and>
              clock_reads w' = clock_reads w \<and>
              (\<exists>evs. trace w' = trace w @ evs \<and> list_all net_event evs \<and>
                     outcomes evs = map (\<lambda>i. respond e (requests_made w + i) u) [0..<k])"
  using assms(3,4,5)
proof (induction k arbitrary: ns w)
  case 0
  then show ?case by auto
next
  case (Suc k)
  then obtain n ns' where ns: "ns = n # ns'" by (cases ns) auto
  have "is_failure (respond e (requests_made w) u)" using Suc.prems(3) by force
  moreover have "1 \<le> n" using Suc.prems(1) ns by simp
  ultimately obtain w1 where a: "attempt e u bb n w = (Retry, w1)"
    using attempt_failure_retry assms(1,2) by blast
  from attempt_frame [OF a] obtain evs1 where f1:
    "fs w1 = fs w" "clock_reads w1 = clock_reads w" "requests_made w1 = Suc (requests_made w)"
    "trace w1 = trace w @ Request u (respond e (requests_made w) u) # evs1"
    "list_all net_event evs1" "outcomes evs1 = []" "rand_calls w \<le> rand_calls w1"
    by blast
  have "\<forall>i<k. is_failure (respond e (requests_made w1 + i) u)"
    using Suc.prems(3) f1(3) by (metis Suc_less_eq add_Suc_shift)
  moreover have "\<forall>n\<in>set ns'. 1 \<le> n" "k \<le> length ns'" using Suc.prems ns by simp_all
  ultimately obtain w' evs where f2:
    "attempt_loop e u bb ns' w1 = attempt_loop e u bb (drop k ns') w'"
    "requests_made w' = requests_made w1 + k" "fs w' = fs w1" "clock_reads w' = clock_reads w1"
    "trace w' = trace w1 @ evs" "list_all net_event evs"
    "outcomes evs = map (\<lambda>i. respond e (requests_made w1 + i) u) [0..<k]"
    using Suc.IH [of ns' w1] by blast
  let ?evs = "Request u (respond e (requests_made w) u) # evs1 @ evs"
  have "attempt_loop e u bb ns w = attempt_loop e u bb (drop (Suc k) ns) w'"
    using a f2(1) ns by simp
  moreover have "requests_made w' = requests_made w + Suc k" using f1 f2 by simp
  moreover have "trace w' = trace w @ ?evs" using f1 f2 by simp
  moreover have "list_all net_event ?evs" using f1 f2 by simp
  moreover have "outcomes ?evs = map (\<lambda>i. respond e (requests_made w + i) u) [0..<Suc k]"
    using f1 f2 by (simp add: outcomes_append upt_rec [of 0 "Suc k"] map_Suc_upt [symmetric] del: upt_Suc)
  ultimately show ?case using f1 f2 by metis
qed

lemma failures_deliver_nothing:
  "list_all is_failure os \<Longrightarrow> concat (map page_comments os) = []"
  by (induction os) (auto simp: is_failure_def page_comments_def)

lemma failures_no_pages:
  "list_all is_failure os \<Longrightarrow> filter is_page os = []"
  by (induction os) (auto simp: is_failure_def is_page_def)

lemma gone_delivers_nothing: "is_gone out \<Longrightarrow> page_comments out = [] \<and> success_body out = None"
  by (cases out) (auto simp: page_comments_def)

lemma butlast_last_split: "os \<noteq> [] \<Longrightarrow> os = butlast os @ [last os]"
  by simp

lemma loop_delivered:
  assumes "loop_outcomes r (outcomes evs) n"
  shows "delivered evs = (case r of Success b \<Rightarrow> body_comments b | _ \<Rightarrow> [])"
proof (cases r)
  case (Success b)
  with assms have os: "outcomes evs \<noteq> []" "list_all is_failure (butlast (outcomes evs))"
    "success_body (last (outcomes evs)) = Some b"
    by (simp_all add: loop_outcomes_def)
  have "concat (map page_comments (butlast (outcomes evs) @ [last (outcomes evs)])) = body_comments b"
    using os(2,3) by (simp add: failures_deliver_nothing page_comments_def)
  with os(1) Success show ?thesis by (simp add: delivered_def)
next
  case NotFound
  with assms have os: "outcomes evs \<noteq> []" "list_all is_failure (butlast (outcomes evs))"
    "is_gone (last (outcomes evs))"
    by (simp_all add: loop_outcomes_def)
  have "concat (map page_comments (butlast (outcomes evs) @ [last (outcomes evs)])) = []"
    using os(2,3) by (simp add: failures_deliver_nothing gone_delivers_nothing)
  with os(1) NotFound show ?thesis by (simp add: delivered_def)
next
  case Retry
  with assms show ?thesis by (simp add: loop_outcomes_def delivered_def failures_deliver_nothing)
next
  case (Propagate err)
  with assms show ?thesis by (simp add: loop_outcomes_def delivered_def failures_deliver_nothing)
qed

lemma loop_pages_ok:
  assumes "loop_outcomes r (outcomes evs) n"
  shows "pages_ok evs = (case r of Success b \<Rightarrow> 1 | _ \<Rightarrow> 0)"
proof (cases r)
  case (Success b)
  with assms have os: "outcomes evs \<noteq> []" "list_all is_failure (butlast (outcomes evs))"
    "success_body (last (outcomes evs)) = Some b"
    by (simp_all add: loop_outcomes_def)
  have "length (filter is_page (butlast (outcomes evs) @ [last (outcomes evs)])) = 1"
    using os(2,3) by (simp add: failures_no_pages is_page_def)
  with os(1) Success show ?thesis by (simp add: pages_ok_def)
next
  case NotFound
  with assms have os: "outcomes evs \<noteq> []" "list_all is_failure (butlast (outcomes evs))"
    "is_gone (last (outcomes evs))"
    by (simp_all add: loop_outcomes_def)
  have "length (filter is_page (butlast (outcomes evs) @ [last (outcomes evs)])) = 0"
    using os(2,3) by (simp add: failures_no_pages gone_delivers_nothing is_page_def)
  with os(1) NotFound show ?thesis by (simp add: pages_ok_def)
next
  case Retry
  with assms show ?thesis by (simp add: loop_outcomes_def pages_ok_def failures_no_pages)
next
  case (Propagate err)
  with assms show ?thesis by (simp add: loop_outcomes_def pages_ok_def failures_no_pages)
qed

lemma attempt_loop_not_found:
  assumes "attempt_loop e u bb ns w = (NotFound, w')"
  shows "\<exists>pre out. trace w' = trace w @ pre @ [Request u out] \<and> is_gone out"
  using assms
proof (induction ns arbitrary: w)
  case Nil
  then show ?case by simp
next
  case (Cons n ns)
  obtain r1 w1 where a: "attempt e u bb n w = (r1, w1)" by (cases "attempt e u bb n w")
  show ?case
  proof (cases "r1 = Retry")
    case True
    with a Cons.prems have "attempt_loop e u bb ns w1 = (NotFound, w')" by simp
    from Cons.IH [OF this] obtain pre out where
      "trace w' = trace w1 @ pre @ [Request u out]" "is_gone out" by blast
    moreover from attempt_frame [OF a] obtain evs1 where
      "trace w1 = trace w @ Request u (respond e (requests_made w) u) # evs1" by blast
    ultimately have
      "trace w' = trace w @ (Request u (respond e (requests_made w) u) # evs1 @ pre) @ [Request u out]"
      by simp
    with \<open>is_gone out\<close> show ?thesis by blast
  next
    case False
    with a Cons.prems have res: "r1 = NotFound" "w' = w1" by (cases r1; simp)+
    with attempt_result [OF a] have g: "is_gone (respond e (requests_made w) u)" by simp
    from attempt_gone [OF g, of bb n] a res
    have "trace w' = trace w @ [] @ [Request u (respond e (requests_made w) u)]" by simp
    with g show ?thesis by blast
  qed
qed

lemma ended_ok_step:
  assumes "loop_outcomes (Success b) (outcomes evs1) n" "outcomes sl = []"
    "ended_ok (next_page b) evs2"
  shows "ended_ok url (evs1 @ sl @ evs2)"
proof -
  from assms(1) have os: "outcomes evs1 \<noteq> []" "success_body (last (outcomes evs1)) = Some b"
    by (simp_all add: loop_outcomes_def)
  show ?thesis
  proof (cases "outcomes evs2 = []")
    case True
    with assms(3) have "\<not> truthy (next_page b)" by (simp add: ended_ok_def)
    with True os assms(2) show ?thesis by (simp add: ended_ok_def outcomes_append)
  next
    case False
    with assms(2,3) show ?thesis by (simp add: ended_ok_def outcomes_append)
  qed
qed

lemma ended_not_found_step: "ended_not_found evs2 \<Longrightarrow> ended_not_found (evs1 @ sl @ evs2)"
  unfolding ended_not_found_def
proof -
  assume "\<exists>pre u out. evs2 = pre @ [Request u out] \<and> is_gone out"
  then obtain pre u out where "evs2 = pre @ [Request u out]" "is_gone out" by blast
  then have "evs1 @ sl @ evs2 = (evs1 @ sl @ pre) @ [Request u out] \<and> is_gone out" by simp
  then show "\<exists>pre u out. evs1 @ sl @ evs2 = pre @ [Request u out] \<and> is_gone out" by blast
qed

lemma ended_exhausted_step: "ended_exhausted mr evs2 \<Longrightarrow> ended_exhausted mr (evs1 @ sl @ evs2)"
  unfolding ended_exhausted_def
proof -
  assume "\<exists>pre os. outcomes evs2 = pre @ os \<and> length os = nat mr \<and> list_all is_failure os"
  then obtain pre os where "outcomes evs2 = pre @ os" "length os = nat mr" "list_all is_failure os"
    by blast
  then have "outcomes (evs1 @ sl @ evs2) = (outcomes evs1 @ outcomes sl @ pre) @ os \<and>
             length os = nat mr \<and> list_all is_failure os"
    by (simp add: outcomes_append)
  then show "\<exists>pre os. outcomes (evs1 @ sl @ evs2) = pre @ os \<and> length os = nat mr \<and>
                      list_all is_failure os"
    by blast
qed

lemma failed_page_step:
  assumes "loop_outcomes (Success b) (outcomes evs1) n" "outcomes sl = []"
  shows "failed_page page (evs1 @ sl @ evs2) = failed_page (page + 1) evs2"
  using loop_pages_ok [OF assms(1)] assms(2)
  by (simp add: failed_page_def pages_ok_append) (simp add: pages_ok_def)

lemma delivered_step:
  assumes "loop_outcomes (Success b) (outcomes evs1) n" "outcomes sl = []"
  shows "delivered (evs1 @ sl @ evs2) = body_comments b @ delivered evs2"
  using loop_delivered [OF assms(1)] assms(2)
  by (simp add: delivered_append) (simp add: delivered_def)

lemma fetch_end_step:
  assumes "loop_outcomes (Success b) (outcomes evs1) n" "outcomes sl = []"
    "fs w2 = fs w" "clock_reads w2 = clock_reads w"
    "fetch_end e pid mr (next_page b) (page + 1) w2 evs2 w' s"
  shows "fetch_end e pid mr url page w (evs1 @ sl @ evs2) w' s"
  using assms(5) unfolding fetch_end_def failed_page_step [OF assms(1,2)] assms(3,4)
  by (elim disjE conjE)
     (simp_all add: ended_ok_step [OF assms(1,2)] ended_not_found_step ended_exhausted_step
        del: apply_op.simps)

lemma page_post_step:
  assumes "trace w1 = trace w @ evs1" "list_all net_event evs1"
    "requests_made w1 = requests_made w + length (outcomes evs1)"
    "loop_outcomes (Success b) (outcomes evs1) n" "fs w1 = fs w"
    "clock_reads w1 = clock_reads w" "rand_calls w \<le> rand_calls w1"
    and "trace w2 = trace w1 @ sl" "list_all net_event sl" "outcomes sl = []" "fs w2 = fs w1"
    "clock_reads w2 = clock_reads w1" "requests_made w2 = requests_made w1"
    "rand_calls w1 \<le> rand_calls w2"
    and "page_post e pid mr (next_page b) (acc @ body_comments b) (page + 1) w2 y"
  shows "page_post e pid mr url acc page w y"
proof -
  from assms(15) obtain evs2 where t2:
    "trace (snd y) = trace w2 @ evs2" "list_all net_event evs2"
    "requests_made (snd y) = requests_made w2 + length (outcomes evs2)"
    "rand_calls w2 \<le> rand_calls (snd y)"
    "\<forall>p. p \<noteq> ERRORS_LOG \<longrightarrow> fs (snd y) p = fs w2 p"
    "\<forall>cs s. fst y = Inr (cs, s) \<longrightarrow>
       cs = (acc @ body_comments b) @ delivered evs2 \<and>
       fetch_end e pid mr (next_page b) (page + 1) w2 evs2 (snd y) s"
    unfolding page_post_def by blast
  let ?evs = "evs1 @ sl @ evs2"
  have 1: "trace (snd y) = trace w @ ?evs" using assms(1,8) t2(1) by simp
  have 2: "list_all net_event ?evs" using assms(2,9) t2(2) by simp
  have 3: "requests_made (snd y) = requests_made w + length (outcomes ?evs)"
    using assms(3,10,13) t2(3) by (simp add: outcomes_append)
  have 4: "rand_calls w \<le> rand_calls (snd y)" using assms(7,14) t2(4) by simp
  have 5: "\<forall>p. p \<noteq> ERRORS_LOG \<longrightarrow> fs (snd y) p = fs w p" using assms(5,11) t2(5) by simp
  have 6: "\<forall>cs s. fst y = Inr (cs, s) \<longrightarrow>
       cs = acc @ delivered ?evs \<and> fetch_end e pid mr url page w ?evs (snd y) s"
  proof (intro allI impI)
    fix cs s assume "fst y = Inr (cs, s)"
    with t2(6) have a: "cs = (acc @ body_comments b) @ delivered evs2"
      and b: "fetch_end e pid mr (next_page b) (page + 1) w2 evs2 (snd y) s" by auto
    have "fs w2 = fs w" "clock_reads w2 = clock_reads w" using assms(5,6,11,12) by simp_all
    from fetch_end_step [OF assms(4,10) this b] a delivered_step [OF assms(4,10)]
    show "cs = acc @ delivered ?evs \<and> fetch_end e pid mr url page w ?evs (snd y) s" by simp
  qed
  show ?thesis unfolding page_post_def using 1 2 3 4 5 6 by blast
qed

lemma page_loop_sound:
  assumes "page_loop e pid dl mr bb url acc page w = Some y"
  shows "page_post e pid mr url acc page w y"
proof (rule page_loop.raw_induct
    [OF _ assms, where P = "\<lambda>e pid dl mr bb url acc page w y. page_post e pid mr url acc page w y"],
    goal_cases)
  case (1 f e pid dl mr bb url acc page w y)
  show ?case
  proof (cases "truthy url")
    case False
    with 1(2) have "y = (Inr (acc, ''ok''), w)"
      by (auto simp: truthy_def split: option.splits if_splits)
    with False show ?thesis
      by (simp add: page_post_def fetch_end_def ended_ok_def delivered_def)
  next
    case True
    then obtain u where u: "url = Some u" "u \<noteq> []"
      by (auto simp: truthy_def split: option.splits)
    obtain r w1 where al: "attempt_loop e u bb [1..mr] w = (r, w1)"
      by (cases "attempt_loop e u bb [1..mr] w")
    from attempt_loop_trace [OF al] obtain evs1 where t1:
      "fs w1 = fs w" "clock_reads w1 = clock_reads w" "trace w1 = trace w @ evs1"
      "list_all net_event evs1" "requests_made w1 = requests_made w + length (outcomes evs1)"
      "loop_outcomes r (outcomes evs1) (length [1..mr])" "rand_calls w \<le> rand_calls w1"
      by blast
    note d1 = loop_delivered [OF t1(6)] and p1 = loop_pages_ok [OF t1(6)]
    show ?thesis
    proof (cases r)
      case NotFound
      with 1(2) u al have y: "y = (Inr (acc, ''404_not_found''), w1)" by simp
      from attempt_loop_not_found al NotFound t1(3) have "ended_not_found evs1"
        unfolding ended_not_found_def by fastforce
      with y t1 d1 NotFound show ?thesis
        by (auto simp: page_post_def fetch_end_def)
    next
      case Retry
      define ln where "ln = error_line e (clock_reads w) pid mr (page + 1)"
      define w2 where "w2 = log_error e pid
        (''Failed after '' @ py_str mr @ '' attempts on page '' @ py_str (page + 1)) w1"
      define s where "s = ''failed_page_'' @ py_str (page + 1)"
      from 1(2) u al Retry have y: "y = (Inr (acc, s), w2)"
        by (simp add: w2_def s_def)
      let ?evs = "evs1 @ [Fs (Append ERRORS_LOG ln)]"
      have c1: "trace w2 = trace w @ ?evs"
        using t1(2,3) by (simp add: w2_def ln_def log_error_def do_op_def error_line_def Let_def)
      have c2: "list_all net_event ?evs" using t1(4) by simp
      have c3: "requests_made w2 = requests_made w + length (outcomes ?evs)"
        using t1(5) by (simp add: w2_def log_error_def do_op_def Let_def outcomes_append)
      have c4: "rand_calls w \<le> rand_calls w2"
        using t1(7) by (simp add: w2_def log_error_def do_op_def Let_def)
      have fsw: "fs w2 = apply_op (Append ERRORS_LOG ln) (fs w)"
        using t1(1,2)
        by (simp add: w2_def ln_def log_error_def do_op_def error_line_def Let_def
              del: apply_op.simps)
      have c5: "\<forall>p. p \<noteq> ERRORS_LOG \<longrightarrow> fs w2 p = fs w p"
        unfolding fsw by (auto split: option.splits file_content.splits)
      have fp: "failed_page page ?evs = page + 1"
        using p1 Retry by (simp add: failed_page_def pages_ok_append) (simp add: pages_ok_def)
      have ex: "ended_exhausted mr ?evs"
        using t1(6) Retry by (auto simp: ended_exhausted_def loop_outcomes_def outcomes_append)
      have dv: "acc = acc @ delivered ?evs"
        using d1 Retry by (simp add: delivered_append) (simp add: delivered_def)
      have c6: "fetch_end e pid mr url page w ?evs w2 s"
        unfolding fetch_end_def fp using ex fsw by (simp add: s_def ln_def del: apply_op.simps)
      have "page_post e pid mr url acc page w (Inr (acc, s), w2)"
        unfolding page_post_def using c1 c2 c3 c4 c5 c6 dv
        by (intro exI [of _ ?evs]) (simp del: apply_op.simps)
      with y show ?thesis by simp
    next
      case (Propagate err)
      with 1(2) u al have y: "y = (Inl err, w1)" by simp
      with t1 show ?thesis by (auto simp: page_post_def)
    next
      case (Success b)
      note lo = t1(6) [unfolded Success]
      show ?thesis
      proof (cases "truthy (next_page b)")
        case False
        with 1(2) u al Success
        have "f e pid dl mr bb (next_page b) (acc @ body_comments b) (page + 1) w1 = Some y"
          by simp
        then have "page_post e pid mr (next_page b) (acc @ body_comments b) (page + 1) w1 y"
          by (rule 1(1))
        from page_post_step [OF t1(3,4,5) lo t1(1,2,7) _ _ _ _ _ _ _ this, of "[]"]
        show ?thesis by simp
      next
        case True
        show ?thesis
        proof (cases "py_sleep dl w1")
          case (Inl err)
          with 1(2) u al Success True have "y = (Inl err, w1)" by simp
          with t1 show ?thesis by (auto simp: page_post_def)
        next
          case (Inr w2)
          then have w2: "w2 = w1\<lparr>trace := trace w1 @ [Sleep dl]\<rparr>"
            by (auto simp: py_sleep_def split: if_splits)
          from 1(2) u al Success True Inr
          have "f e pid dl mr bb (next_page b) (acc @ body_comments b) (page + 1) w2 = Some y"
            by simp
          then have "page_post e pid mr (next_page b) (acc @ body_comments b) (page + 1) w2 y"
            by (rule 1(1))
          from page_post_step [OF t1(3,4,5) lo t1(1,2,7) _ _ _ _ _ _ _ this, of "[Sleep dl]"] w2
          show ?thesis by simp
        qed
      qed
    qed
  qed
qed

lemma page_loop_falsy:
  "\<not> truthy url \<Longrightarrow> page_loop e pid dl mr bb url acc page w = Some (Inr (acc, ''ok''), w)"
  by (subst page_loop.simps) (auto simp: truthy_def split: option.splits)

lemma page_loop_returns:
  assumes "cursors_end e N"
  shows "\<exists>y. page_loop e pid dl mr bb url acc page w = Some y"
proof (induction "N - requests_made w" arbitrary: url acc page w rule: less_induct)
  case less
  show ?case
  proof (cases "truthy url")
    case False
    then show ?thesis by (simp add: page_loop_falsy)
  next
    case True
    then obtain u where u: "url = Some u" "u \<noteq> []"
      by (auto simp: truthy_def split: option.splits)
    obtain r w1 where al: "attempt_loop e u bb [1..mr] w = (r, w1)"
      by (cases "attempt_loop e u bb [1..mr] w")
    show ?thesis
    proof (cases r)
      case (Success b)
      show ?thesis
      proof (cases "truthy (next_page b)")
        case False
        with u al Success show ?thesis
          by (subst page_loop.simps) (simp add: page_loop_falsy)
      next
        case True
        from attempt_loop_success_index [OF al [unfolded Success]] obtain k where k:
          "requests_made w \<le> k" "k < requests_made w1" "success_body (respond e k u) = Some b"
          by blast
        with True assms have "k < N" unfolding cursors_end_def by (meson not_le)
        with k have dec: "N - requests_made w1 < N - requests_made w" by linarith
        show ?thesis
        proof (cases "py_sleep dl w1")
          case (Inl err)
          with u al Success True show ?thesis
            by (subst page_loop.simps) simp
        next
          case (Inr w2)
          then have "requests_made w2 = requests_made w1"
            by (auto simp: py_sleep_def split: if_splits)
          with dec have "N - requests_made w2 < N - requests_made w" by simp
          from less [OF this] u al Success True Inr show ?thesis
            by (subst page_loop.simps) simp
        qed
      qed
    next
      case NotFound
      with u al show ?thesis by (subst page_loop.simps) simp
    next
      case Retry
      with u al show ?thesis by (subst page_loop.simps) simp
    next
      case (Propagate err)
      with u al show ?thesis by (subst page_loop.simps) simp
    qed
  qed
qed

lemma upto_ge_1: "\<forall>n\<in>set [1..mr]. 1 \<le> n"
  by simp

lemma page_loop_no_error:
  assumes "page_loop e pid dl mr bb url acc page w = Some y" "valid_env e" "0 \<le> dl" "0 \<le> bb"
  shows "\<exists>cs s. fst y = Inr (cs, s)"
proof -
  have "valid_env e \<and> 0 \<le> dl \<and> 0 \<le> bb \<longrightarrow> (\<exists>cs s. fst y = Inr (cs, s))"
  proof (rule page_loop.raw_induct
      [OF _ assms(1), where P = "\<lambda>e pid dl mr bb url acc page w y.
         valid_env e \<and> 0 \<le> dl \<and> 0 \<le> bb \<longrightarrow> (\<exists>cs s. fst y = Inr (cs, s))"],
      goal_cases)
    case (1 f e pid dl mr bb url acc page w y)
    show ?case
    proof (intro impI, elim conjE)
      assume v: "valid_env e" "0 \<le> dl" "0 \<le> bb"
      show "\<exists>cs s. fst y = Inr (cs, s)"
      proof (cases "truthy url")
        case False
        with 1(2) show ?thesis
          by (auto simp: truthy_def split: option.splits if_splits)
      next
        case True
        then obtain u where u: "url = Some u" "u \<noteq> []"
          by (auto simp: truthy_def split: option.splits)
        obtain r w1 where al: "attempt_loop e u bb [1..mr] w = (r, w1)"
          by (cases "attempt_loop e u bb [1..mr] w")
        have np: "\<And>x. r \<noteq> Propagate x"
          using attempt_loop_no_propagate [OF al v(1,3) upto_ge_1] .
        show ?thesis
        proof (cases r)
          case (Success b)
          have sl: "py_sleep dl w1 = Inr (w1\<lparr>trace := trace w1 @ [Sleep dl]\<rparr>)"
            using v(2) by (simp add: py_sleep_def)
          from 1(2) u al Success sl
          have "\<exists>w2. f e pid dl mr bb (next_page b) (acc @ body_comments b) (page + 1) w2 = Some y"
            by (cases "truthy (next_page b)") auto
          with 1(1) v show ?thesis by blast
        next
          case NotFound
          with 1(2) u al show ?thesis by auto
        next
          case Retry
          with 1(2) u al show ?thesis by auto
        next
          case (Propagate err)
          with np [of err] show ?thesis by simp
        qed
      qed
    qed
  qed
  with assms show ?thesis by simp
qed

lemma fetch_end_trace_irrelevant:
  "fetch_end e pid mr url page (w\<lparr>trace := t\<rparr>) evs w' s = fetch_end e pid mr url page w evs w' s"
  by (simp add: fetch_end_def del: apply_op.simps)

lemma download_sound:
  assumes "download_comments_for_post e pid dl mr bb w = Some (res, w')"
  shows "\<exists>evs. trace w' = trace w @ Call_download pid # evs \<and> list_all net_event evs \<and>
           requests_made w' = requests_made w + length (outcomes evs) \<and>
           rand_calls w \<le> rand_calls w' \<and>
           (\<forall>p. p \<noteq> ERRORS_LOG \<longrightarrow> fs w' p = fs w p) \<and>
           (\<forall>cs s. res = Inr (cs, s) \<longrightarrow>
              cs = delivered evs \<and> fetch_end e pid mr (Some (initial_url pid)) 0 w evs w' s)"
  using page_loop_sound [OF assms [unfolded download_comments_for_post_def]]
  unfolding page_post_def by (simp add: fetch_end_trace_irrelevant)

lemma download_returns:
  assumes "cursors_end e N"
  shows "\<exists>y. download_comments_for_post e pid dl mr bb w = Some y"
  unfolding download_comments_for_post_def using assms by (rule page_loop_returns)

lemma download_no_error:
  assumes "download_comments_for_post e pid dl mr bb w = Some (res, w')"
    "valid_env e" "0 \<le> dl" "0 \<le> bb"
  shows "\<exists>cs s. res = Inr (cs, s)"
  using page_loop_no_error [OF assms(1) [unfolded download_comments_for_post_def] assms(2,3,4)]
  by simp



lemma initial_url_nonempty: "initial_url pid \<noteq> []"
  by (simp add: initial_url_def BASE_URL_def)

lemma valid_ex_env: "valid_env ex_env"
  by (simp add: valid_env_def ex_env_def)

lemma cursors_end_ex_env: "cursors_end ex_env 0"
  by (simp add: cursors_end_def ex_env_def one_page_def truthy_def)

section \<open>The loops of the run\<close>

lemma attempt_loop_gone:
  assumes "is_gone (respond e (requests_made w) u)"
  shows "attempt_loop e u bb (n # ns) w =
           (NotFound, w\<lparr>trace := trace w @ [Request u (respond e (requests_made w) u)],
                        requests_made := Suc (requests_made w)\<rparr>)"
  by (simp add: attempt_gone [OF assms])



lemma page_loop_gone:
  assumes "valid_env e" "0 \<le> bb" "u \<noteq> []" "k < nat mr"
    "\<forall>i<k. is_failure (respond e (requests_made w + i) u)"
    "is_gone (respond e (requests_made w + k) u)"
  shows "\<exists>w' pre. page_loop e pid dl mr bb (Some u) acc page w =
             Some (Inr (acc, ''404_not_found''), w') \<and>
           trace w' = trace w @ pre @ [Request u (respond e (requests_made w + k) u)] \<and>
           list_all net_event pre \<and>
           outcomes pre = map (\<lambda>i. respond e (requests_made w + i) u) [0..<k] \<and>
           fs w' = fs w \<and> requests_made w' = requests_made w + k + 1"
proof -
  have len: "k \<le> length [1..mr]" using assms(4) by simp
  from attempt_loop_failures [OF assms(1,2) upto_ge_1 len assms(5)]
  obtain w1 evs where f:
    "attempt_loop e u bb [1..mr] w = attempt_loop e u bb (drop k [1..mr]) w1"
    "requests_made w1 = requests_made w + k" "fs w1 = fs w"
    "clock_reads w1 = clock_reads w" "trace w1 = trace w @ evs" "list_all net_event evs"
    "outcomes evs = map (\<lambda>i. respond e (requests_made w + i) u) [0..<k]"
    by blast
  have "drop k [1..mr] \<noteq> []" using assms(4) by simp
  then obtain n ns where d: "drop k [1..mr] = n # ns" by (cases "drop k [1..mr]") auto
  have g: "is_gone (respond e (requests_made w1) u)" using assms(6) f(2) by simp
  define w' where "w' = w1\<lparr>trace := trace w1 @ [Request u (respond e (requests_made w1) u)],
                           requests_made := Suc (requests_made w1)\<rparr>"
  have al: "attempt_loop e u bb [1..mr] w = (NotFound, w')"
    using f(1) d attempt_loop_gone [OF g, of bb n ns] by (simp add: w'_def)
  have pl: "page_loop e pid dl mr bb (Some u) acc page w =
              Some (Inr (acc, ''404_not_found''), w')"
    using assms(3) al by (subst page_loop.simps) simp
  have "trace w' = trace w @ evs @ [Request u (respond e (requests_made w + k) u)]"
    "fs w' = fs w" "requests_made w' = requests_made w + k + 1"
    using f by (simp_all add: w'_def)
  with pl f(6,7) show ?thesis by blast
qed

lemma save_checkpoint_result:
  "fst (save_checkpoint e c w) = c\<lparr>last_updated := Some (now e (clock_reads w))\<rparr>"
  by (simp add: save_checkpoint_def Let_def)

lemma save_checkpoint_world:
  "trace (snd (save_checkpoint e c w)) =
     trace w @ map Fs (save_checkpoint_ops (fst (save_checkpoint e c w)))"
  "fs (snd (save_checkpoint e c w)) =
     (fs w)(CHECKPOINT_TMP := None, CHECKPOINT_FILE \<mapsto> CheckpointDoc (fst (save_checkpoint e c w)))"
  "requests_made (snd (save_checkpoint e c w)) = requests_made w"
  "rand_calls (snd (save_checkpoint e c w)) = rand_calls w"
  "clock_reads (snd (save_checkpoint e c w)) = Suc (clock_reads w)"
  by (simp_all add: save_checkpoint_def save_checkpoint_ops_def do_op_def Let_def
        CHECKPOINT_TMP_def CHECKPOINT_FILE_def)

lemma record_outcome_state:
  "completed (fst (record_outcome e post n cs stat st w)) =
     set_add (py_str (post_id post)) (completed st)"
  "batch_results (fst (record_outcome e post n cs stat st w)) =
     batch_results st @ [\<lparr>entry_post_id = n, expected_comment_count = comment_count post,
                          actual_comment_count = int (length cs), status = stat, comments = cs\<rparr>]"
  "errors_count (fst (record_outcome e post n cs stat st w)) =
     (if stat \<noteq> ''ok'' \<and> stat \<noteq> ''404_not_found'' then errors_count st + 1 else errors_count st)"
  "batch_num (fst (record_outcome e post n cs stat st w)) = batch_num st"
  "total_comments (fst (record_outcome e post n cs stat st w)) = total_comments st + int (length cs)"
  "ckpt (fst (record_outcome e post n cs stat st w)) =
     (ckpt st)\<lparr>completed_post_ids := set_add (py_str (post_id post)) (completed st),
                total_comments_downloaded := total_comments st + int (length cs),
                last_updated := Some (now e (clock_reads w))\<rparr>"
  by (simp_all add: record_outcome_def Let_def split_beta save_checkpoint_result)

lemma record_outcome_world:
  "trace (snd (record_outcome e post n cs stat st w)) =
     trace w @ map Fs (save_checkpoint_ops (ckpt (fst (record_outcome e post n cs stat st w))))"
  "fs (snd (record_outcome e post n cs stat st w)) =
     (fs w)(CHECKPOINT_TMP := None,
            CHECKPOINT_FILE \<mapsto> CheckpointDoc (ckpt (fst (record_outcome e post n cs stat st w))))"
  "requests_made (snd (record_outcome e post n cs stat st w)) = requests_made w"
  "rand_calls (snd (record_outcome e post n cs stat st w)) = rand_calls w"
  "clock_reads (snd (record_outcome e post n cs stat st w)) = Suc (clock_reads w)"
  by (simp_all add: record_outcome_def Let_def split_beta save_checkpoint_world)

lemma for_post_info_step:
  assumes "download_comments_for_post e (py_str (post_id post))
             (delay a) (max_retries a) (backoff_base a) w = Some (Inr (cs, s), w1)"
    "0 \<le> delay a + 0.2 * rnd e (rand_calls w1)"
  shows "for_post_info e a (post # posts) st w =
           for_post_info e a posts (fst (record_outcome e post (post_id post) cs s st w1))
             (paused e a (snd (record_outcome e post (post_id post) cs s st w1)))"
  using assms
  by (simp add: py_int_py_str split_beta uniform_def py_sleep_def paused_def
        record_outcome_world Let_def)

lemma for_post_info_inv:
  assumes "for_post_info e a (post # posts) st w = Some (Inr st', w')"
  shows "\<exists>cs s w1. download_comments_for_post e (py_str (post_id post))
             (delay a) (max_retries a) (backoff_base a) w = Some (Inr (cs, s), w1) \<and>
           for_post_info e a posts (fst (record_outcome e post (post_id post) cs s st w1))
             (paused e a (snd (record_outcome e post (post_id post) cs s st w1))) =
           Some (Inr st', w')"
  using assms
  by (auto simp: py_int_py_str split_beta uniform_def py_sleep_def paused_def
        record_outcome_world Let_def
        split: option.splits sum.splits prod.splits if_splits)

lemma protocol_save_ops:
  "protocol (map Fs (save_checkpoint_ops c)) = [Fs (Rename CHECKPOINT_TMP CHECKPOINT_FILE)]"
  by (simp add: protocol_def save_checkpoint_ops_def)

lemma dumps_save_ops: "dumps (map Fs (save_checkpoint_ops c)) = []"
  by (simp add: save_checkpoint_ops_def)


lemma items_done_Nil: "items_done [] st w st w"
  by (simp add: items_done_def protocol_def)

lemma items_done_Cons:
  assumes d: "trace w1 = trace w @ Call_download (py_str (post_id post)) # evs1"
      "list_all net_event evs1" "\<forall>p. p \<noteq> ERRORS_LOG \<longrightarrow> fs w1 p = fs w p"
    and r: "st1 = fst (record_outcome e post (post_id post) cs s st w1)"
      "w4 = paused e a (snd (record_outcome e post (post_id post) cs s st w1))"
    and rest: "items_done posts st1 w4 st' w'"
  shows "items_done (post # posts) st w st' w'"
proof -
  from rest obtain evs ents where t:
    "trace w' = trace w4 @ evs" "protocol evs = concat (map per_item posts)" "dumps evs = []"
    "batch_results st' = batch_results st1 @ ents" "map entry_post_id ents = map post_id posts"
    "completed st' = fold set_add (map (\<lambda>p. py_str (post_id p)) posts) (completed st1)"
    "batch_num st' = batch_num st1"
    "\<forall>p. p \<noteq> CHECKPOINT_FILE \<and> p \<noteq> CHECKPOINT_TMP \<and> p \<noteq> ERRORS_LOG \<longrightarrow> fs w' p = fs w4 p"
    "posts = [] \<longrightarrow> st' = st1 \<and> w' = w4"
    "posts \<noteq> [] \<longrightarrow> fs w' CHECKPOINT_FILE = Some (CheckpointDoc (ckpt st')) \<and>
                    completed_post_ids (ckpt st') = completed st'"
    unfolding items_done_def by blast
  define ops where "ops = map Fs (save_checkpoint_ops (ckpt st1))"
  define sl where "sl = Sleep (delay a + 0.2 * rnd e (rand_calls w1))"
  define en where "en = \<lparr>entry_post_id = post_id post, expected_comment_count = comment_count post,
                          actual_comment_count = int (length cs), status = s, comments = cs\<rparr>"
  let ?evs = "Call_download (py_str (post_id post)) # evs1 @ ops @ [sl] @ evs"
  have w4: "trace w4 = trace w1 @ ops @ [sl]"
    "fs w4 = (fs w1)(CHECKPOINT_TMP := None, CHECKPOINT_FILE \<mapsto> CheckpointDoc (ckpt st1))"
    using r by (simp_all add: paused_def record_outcome_world ops_def sl_def)
  have 1: "trace w' = trace w @ ?evs" using t(1) w4(1) d(1) by simp
  have 2: "protocol ?evs = concat (map per_item (post # posts))"
  proof -
    have a: "protocol [Call_download (py_str (post_id post))] = [Call_download (py_str (post_id post))]"
      and b: "protocol [sl] = []"
      by (simp_all add: protocol_def sl_def)
    have "?evs = [Call_download (py_str (post_id post))] @ evs1 @ ops @ [sl] @ evs" by simp
    then show ?thesis
      using t(2) net_protocol [OF d(2)] a b
      by (simp only: protocol_append ops_def protocol_save_ops per_item_def)
         (simp add: per_item_def)
  qed
  have 3: "dumps ?evs = []"
    using t(3) net_dumps [OF d(2)] by (simp add: dumps_append ops_def dumps_save_ops sl_def)
  have 4: "batch_results st' = batch_results st @ (en # ents)"
    using t(4) by (simp add: r record_outcome_state en_def)
  have 5: "map entry_post_id (en # ents) = map post_id (post # posts)"
    using t(5) by (simp add: en_def)
  have 6: "completed st' =
           fold set_add (map (\<lambda>p. py_str (post_id p)) (post # posts)) (completed st)"
    using t(6) by (simp add: r record_outcome_state)
  have 7: "batch_num st' = batch_num st" using t(7) by (simp add: r record_outcome_state)
  have 8: "\<forall>p. p \<noteq> CHECKPOINT_FILE \<and> p \<noteq> CHECKPOINT_TMP \<and> p \<noteq> ERRORS_LOG \<longrightarrow> fs w' p = fs w p"
    using t(8) w4(2) d(3) by simp
  have 9: "fs w' CHECKPOINT_FILE = Some (CheckpointDoc (ckpt st')) \<and>
           completed_post_ids (ckpt st') = completed st'"
  proof (cases "posts = []")
    case False
    with t(10) show ?thesis by simp
  next
    case True
    with t(9) have "st' = st1" "w' = w4" by simp_all
    then show ?thesis using w4(2) by (simp add: r record_outcome_state)
  qed
  have 10: "post # posts \<noteq> []" by simp
  show ?thesis unfolding items_done_def using 1 2 3 4 5 6 7 8 9 10 by blast
qed

lemma for_post_info_sound:
  assumes "for_post_info e a posts st w = Some (Inr st', w')"
  shows "items_done posts st w st' w'"
  using assms
proof (induction posts arbitrary: st w)
  case Nil
  then show ?case by (simp add: items_done_Nil)
next
  case (Cons post posts)
  from for_post_info_inv [OF Cons.prems] obtain cs s w1 where
    d: "download_comments_for_post e (py_str (post_id post))
             (delay a) (max_retries a) (backoff_base a) w = Some (Inr (cs, s), w1)"
    and r: "for_post_info e a posts (fst (record_outcome e post (post_id post) cs s st w1))
             (paused e a (snd (record_outcome e post (post_id post) cs s st w1))) =
           Some (Inr st', w')"
    by blast
  from download_sound [OF d] obtain evs1 where
    "trace w1 = trace w @ Call_download (py_str (post_id post)) # evs1"
    "list_all net_event evs1" "\<forall>p. p \<noteq> ERRORS_LOG \<longrightarrow> fs w1 p = fs w p"
    by blast
  from items_done_Cons [OF this refl refl Cons.IH [OF r]] show ?case .
qed

lemma batch_file_not_special: "batch_file n \<notin> SPECIAL"
  by (simp add: SPECIAL_def batch_file_def OUTPUT_DIR_def CHECKPOINT_FILE_def
        CHECKPOINT_TMP_def ERRORS_LOG_def)

lemma save_batch_world:
  "trace (snd (save_batch rs n w)) =
     trace w @ [Fs (Mkdir (OUTPUT_DIR @ ''/batches'')), Fs (Open_w (batch_file n)),
                Fs (Dump (batch_file n) (BatchDoc rs))]"
  "fs (snd (save_batch rs n w)) = (fs w)(batch_file n \<mapsto> BatchDoc rs)"
  "rand_calls (snd (save_batch rs n w)) = rand_calls w"
  "requests_made (snd (save_batch rs n w)) = requests_made w"
  by (simp_all add: save_batch_def do_op_def Let_def)

lemma batch_pause_world:
  "fs (batch_pause e a remaining s w) = fs w"
  "\<exists>sl. trace (batch_pause e a remaining s w) = trace w @ sl \<and> protocol sl = [] \<and> dumps sl = []"
  by (auto simp: batch_pause_def protocol_def)

lemma for_batch_start_inv:
  assumes "for_batch_start e a remaining (s # starts) st w = Some (Inr st', w')"
  shows "\<exists>st1 w1. for_post_info e a (py_slice remaining s (s + batch_size a))
                     (st\<lparr>batch_results := [], batch_comments := 0\<rparr>) w = Some (Inr st1, w1) \<and>
           for_batch_start e a remaining starts (st1\<lparr>batch_num := batch_num st1 + 1\<rparr>)
             (batch_pause e a remaining s (snd (save_batch (batch_results st1) (batch_num st1) w1))) =
           Some (Inr st', w')"
  using assms
  by (auto simp: split_beta uniform_def py_sleep_def batch_pause_def save_batch_world Let_def
        split: option.splits sum.splits prod.splits if_splits)

lemma for_batch_start_step:
  assumes "for_post_info e a (py_slice remaining s (s + batch_size a))
             (st\<lparr>batch_results := [], batch_comments := 0\<rparr>) w = Some (Inr st1, w1)"
    "0 \<le> batch_delay a + 2 * rnd e (rand_calls w1)"
  shows "for_batch_start e a remaining (s # starts) st w =
           for_batch_start e a remaining starts (st1\<lparr>batch_num := batch_num st1 + 1\<rparr>)
             (batch_pause e a remaining s (snd (save_batch (batch_results st1) (batch_num st1) w1)))"
  using assms
  by (simp add: split_beta uniform_def py_sleep_def batch_pause_def save_batch_world Let_def)

lemma batches_done_Nil: "batches_done a remaining [] st w st w"
  by (simp add: batches_done_def protocol_def last_dump_def)

lemma last_dump_Cons:
  "last_dump (d # ds) p = (case last_dump ds p of None \<Rightarrow> (if fst d = p then Some (snd d) else None)
                           | Some es \<Rightarrow> Some es)"
  by (cases d) (auto simp: last_dump_def map_add_def split: option.splits)

lemma special_members:
  "CHECKPOINT_FILE \<in> SPECIAL" "CHECKPOINT_TMP \<in> SPECIAL" "ERRORS_LOG \<in> SPECIAL"
  by (simp_all add: SPECIAL_def)

lemma batches_done_Cons:
  assumes items: "items_done (py_slice remaining s (s + batch_size a)) st0 w st1 w1"
    and st0: "batch_num st0 = batch_num st" "completed st0 = completed st" "ckpt st0 = ckpt st"
      "batch_results st0 = []"
    and w4: "trace w4 = trace w1 @ [Fs (Mkdir (OUTPUT_DIR @ ''/batches'')),
               Fs (Open_w (batch_file (batch_num st1))),
               Fs (Dump (batch_file (batch_num st1)) (BatchDoc (batch_results st1)))] @ sl"
      "protocol sl = []" "dumps sl = []"
      "fs w4 = (fs w1)(batch_file (batch_num st1) \<mapsto> BatchDoc (batch_results st1))"
    and st2: "batch_num st2 = batch_num st1 + 1" "completed st2 = completed st1"
      "ckpt st2 = ckpt st1"
    and rest: "batches_done a remaining starts st2 w4 st' w'"
  shows "batches_done a remaining (s # starts) st w st' w'"
proof -
  define batch where "batch = py_slice remaining s (s + batch_size a)"
  define batches where "batches = map (\<lambda>s. py_slice remaining s (s + batch_size a)) starts"
  from items obtain evs1 ents where t1:
    "trace w1 = trace w @ evs1" "protocol evs1 = concat (map per_item batch)" "dumps evs1 = []"
    "batch_results st1 = batch_results st0 @ ents" "map entry_post_id ents = map post_id batch"
    "completed st1 = fold set_add (map (\<lambda>p. py_str (post_id p)) batch) (completed st0)"
    "batch_num st1 = batch_num st0"
    "\<forall>p. p \<noteq> CHECKPOINT_FILE \<and> p \<noteq> CHECKPOINT_TMP \<and> p \<noteq> ERRORS_LOG \<longrightarrow> fs w1 p = fs w p"
    "batch = [] \<longrightarrow> st1 = st0 \<and> w1 = w"
    "batch \<noteq> [] \<longrightarrow> fs w1 CHECKPOINT_FILE = Some (CheckpointDoc (ckpt st1)) \<and>
                    completed_post_ids (ckpt st1) = completed st1"
    unfolding items_done_def batch_def by blast
  from rest obtain evs2 where t2:
    "trace w' = trace w4 @ evs2" "protocol evs2 = concat (map per_item (concat batches))"
    "map fst (dumps evs2) = map (\<lambda>i. batch_file (batch_num st2 + int i)) [0..<length starts]"
    "map (\<lambda>d. map entry_post_id (snd d)) (dumps evs2) = map (map post_id) batches"
    "batch_num st' = batch_num st2 + int (length starts)"
    "completed st' = fold set_add (map (\<lambda>p. py_str (post_id p)) (concat batches)) (completed st2)"
    "\<forall>p. p \<notin> SPECIAL \<longrightarrow>
       fs w' p = (case last_dump (dumps evs2) p of None \<Rightarrow> fs w4 p | Some es \<Rightarrow> Some (BatchDoc es))"
    "concat batches = [] \<longrightarrow> fs w' CHECKPOINT_FILE = fs w4 CHECKPOINT_FILE \<and>
       completed st' = completed st2 \<and> ckpt st' = ckpt st2"
    "concat batches \<noteq> [] \<longrightarrow> fs w' CHECKPOINT_FILE = Some (CheckpointDoc (ckpt st')) \<and>
       completed_post_ids (ckpt st') = completed st'"
    unfolding batches_done_def batches_def Let_def by blast
  define bf where "bf = batch_file (batch_num st1)"
  define sv where "sv = [Fs (Mkdir (OUTPUT_DIR @ ''/batches'')), Fs (Open_w bf),
                         Fs (Dump bf (BatchDoc (batch_results st1)))]"
  let ?evs = "evs1 @ sv @ sl @ evs2"
  have bn: "batch_num st1 = batch_num st" using t1(7) st0(1) by simp
  have svp: "protocol sv = []" "dumps sv = [(bf, batch_results st1)]"
    by (simp_all add: sv_def protocol_def)
  have 1: "trace w' = trace w @ ?evs" using t1(1) t2(1) w4(1) by (simp add: sv_def bf_def)
  have 2: "protocol ?evs = concat (map per_item (concat (batch # batches)))"
    using t1(2) t2(2) svp(1) w4(2) by (simp add: protocol_append)
  have dm: "dumps ?evs = (bf, batch_results st1) # dumps evs2"
    using t1(3) svp(2) w4(3) by (simp add: dumps_append)
  have sh: "map (\<lambda>i. batch_file (batch_num st + int i)) [0..<Suc (length starts)] =
            bf # map (\<lambda>i. batch_file (batch_num st2 + int i)) [0..<length starts]"
    using st2(1) bn
    by (simp add: upt_rec [of 0 "Suc (length starts)"] map_Suc_upt [symmetric] bf_def
          add.assoc del: upt_Suc)
  have 3: "map fst (dumps ?evs) =
           map (\<lambda>i. batch_file (batch_num st + int i)) [0..<length (s # starts)]"
    by (simp add: dm sh t2(3) del: upt_Suc)
  have 4: "map (\<lambda>d. map entry_post_id (snd d)) (dumps ?evs) = map (map post_id) (batch # batches)"
    using t2(4) t1(4,5) st0(4) by (simp add: dm)
  have 5: "batch_num st' = batch_num st + int (length (s # starts))"
    using t2(5) st2(1) bn by simp
  have 6: "completed st' =
           fold set_add (map (\<lambda>p. py_str (post_id p)) (concat (batch # batches))) (completed st)"
    using t2(6) t1(6) st2(2) st0(2) by simp
  have 7: "\<forall>p. p \<notin> SPECIAL \<longrightarrow>
       fs w' p = (case last_dump (dumps ?evs) p of None \<Rightarrow> fs w p | Some es \<Rightarrow> Some (BatchDoc es))"
  proof (intro allI impI)
    fix p assume p: "p \<notin> SPECIAL"
    then have p': "p \<noteq> CHECKPOINT_FILE \<and> p \<noteq> CHECKPOINT_TMP \<and> p \<noteq> ERRORS_LOG"
      by (simp add: SPECIAL_def)
    have "fs w4 p = (if bf = p then Some (BatchDoc (batch_results st1)) else fs w p)"
      using w4(4) t1(8) p' by (simp add: bf_def)
    with t2(7) p show
      "fs w' p = (case last_dump (dumps ?evs) p of None \<Rightarrow> fs w p | Some es \<Rightarrow> Some (BatchDoc es))"
      by (simp add: dm last_dump_Cons split: option.splits)
  qed
  have ck4: "fs w4 CHECKPOINT_FILE = fs w1 CHECKPOINT_FILE"
    using w4(4) batch_file_not_special [of "batch_num st1"] special_members(1) by auto
  have 8: "concat (batch # batches) = [] \<longrightarrow> fs w' CHECKPOINT_FILE = fs w CHECKPOINT_FILE \<and>
       completed st' = completed st \<and> ckpt st' = ckpt st"
    using t1(9) t2(8) ck4 st0 st2 by auto
  have 9: "concat (batch # batches) \<noteq> [] \<longrightarrow>
       fs w' CHECKPOINT_FILE = Some (CheckpointDoc (ckpt st')) \<and>
       completed_post_ids (ckpt st') = completed st'"
  proof (cases "concat batches = []")
    case False
    with t2(9) show ?thesis by simp
  next
    case True
    with t2(8) have e: "fs w' CHECKPOINT_FILE = fs w4 CHECKPOINT_FILE"
      "completed st' = completed st2" "ckpt st' = ckpt st2" by simp_all
    show ?thesis
    proof (cases "batch = []")
      case True
      with \<open>concat batches = []\<close> show ?thesis by simp
    next
      case False
      with t1(10) e ck4 st2 show ?thesis by simp
    qed
  qed
  show ?thesis
    unfolding batches_done_def Let_def
    using 1 2 3 4 5 6 7 8 9
    unfolding batch_def batches_def
    by (intro exI [of _ ?evs] conjI) (simp_all only: list.map)
qed

lemma for_batch_start_sound:
  assumes "for_batch_start e a remaining starts st w = Some (Inr st', w')"
  shows "batches_done a remaining starts st w st' w'"
  using assms
proof (induction starts arbitrary: st w)
  case Nil
  then show ?case by (simp add: batches_done_Nil)
next
  case (Cons s starts)
  from for_batch_start_inv [OF Cons.prems] obtain st1 w1 where
    i: "for_post_info e a (py_slice remaining s (s + batch_size a))
          (st\<lparr>batch_results := [], batch_comments := 0\<rparr>) w = Some (Inr st1, w1)"
    and r: "for_batch_start e a remaining starts (st1\<lparr>batch_num := batch_num st1 + 1\<rparr>)
             (batch_pause e a remaining s (snd (save_batch (batch_results st1) (batch_num st1) w1))) =
           Some (Inr st', w')"
    by blast
  define w4 where
    "w4 = batch_pause e a remaining s (snd (save_batch (batch_results st1) (batch_num st1) w1))"
  obtain sl where sl:
    "trace w4 = trace (snd (save_batch (batch_results st1) (batch_num st1) w1)) @ sl"
    "protocol sl = []" "dumps sl = []"
    using batch_pause_world(2) unfolding w4_def by blast
  have tr: "trace w4 = trace w1 @ [Fs (Mkdir (OUTPUT_DIR @ ''/batches'')),
               Fs (Open_w (batch_file (batch_num st1))),
               Fs (Dump (batch_file (batch_num st1)) (BatchDoc (batch_results st1)))] @ sl"
    using sl(1) by (simp add: save_batch_world)
  have fsw: "fs w4 = (fs w1)(batch_file (batch_num st1) \<mapsto> BatchDoc (batch_results st1))"
    by (simp add: w4_def batch_pause_world save_batch_world)
  show ?case
    by (rule batches_done_Cons [OF for_post_info_sound [OF i] _ _ _ _ tr sl(2,3) fsw _ _ _
          Cons.IH [OF r [folded w4_def]]]) simp_all
qed

lemma py_range_batches: "0 < bs \<Longrightarrow> py_range 0 (int n) bs = Inr (batch_starts bs n)"
  by (simp add: py_range_def batch_starts_def)

lemma py_range_negative: "bs < 0 \<Longrightarrow> py_range 0 (int n) bs = Inr []"
proof -
  assume bs: "bs < 0"
  have "(0 - int n - bs - 1) div (- bs) \<le> 0"
  proof -
    have "0 - int n - bs - 1 < - bs" by simp
    moreover have "0 < - bs" using bs by simp
    ultimately show ?thesis
      by (metis div_pos_neg_trivial div_pos_pos_trivial leI linorder_not_le neg_imp_zdiv_nonneg_iff
            not_less_iff_gr_or_eq order.refl zdiv_mono1)
  qed
  with bs show ?thesis by (simp add: py_range_def)
qed

lemma concat_take_drop:
  "concat (map (\<lambda>k. take b (drop (k * b) xs)) [0..<m]) = take (m * b) xs"
proof (induction m)
  case 0
  then show ?case by simp
next
  case (Suc m)
  have "take (m * b + b) xs = take (m * b) xs @ take b (drop (m * b) xs)"
    by (rule take_add)
  moreover have "Suc m * b = m * b + b" by simp
  ultimately have "take (Suc m * b) xs = take (m * b) xs @ take b (drop (m * b) xs)"
    by (simp only:)
  with Suc show ?case by simp
qed

lemma ceil_div_covers:
  assumes "0 < (b::nat)"
  shows "n \<le> ((n + b - 1) div b) * b"
proof -
  have "n + b - 1 = ((n + b - 1) div b) * b + (n + b - 1) mod b" by simp
  moreover have "(n + b - 1) mod b < b" using assms by simp
  ultimately show ?thesis using assms by linarith
qed

lemma batches_cover:
  assumes "0 < bs"
  shows "concat (map (\<lambda>s. py_slice xs s (s + bs)) (batch_starts bs (length xs))) = xs"
proof -
  define b where "b = nat bs"
  have b: "0 < b" "bs = int b" using assms by (simp_all add: b_def)
  define m where "m = (length xs + b - 1) div b"
  have m: "nat ((int (length xs) + bs - 1) div bs) = m"
  proof -
    have "int (length xs) + int b - 1 = int (length xs + b - 1)" using b(1) by simp
    then show ?thesis by (simp add: b(2) m_def zdiv_int [symmetric] del: of_nat_add of_nat_diff)
  qed
  have sl: "py_slice xs (int k * bs) (int k * bs + bs) = take b (drop (k * b) xs)" for k
    by (simp add: py_slice_def b(2) nat_mult_distrib)
  have "concat (map (\<lambda>s. py_slice xs s (s + bs)) (batch_starts bs (length xs))) =
        concat (map (\<lambda>k. take b (drop (k * b) xs)) [0..<m])"
    by (simp add: batch_starts_def m comp_def sl)
  also have "\<dots> = take (m * b) xs" by (rule concat_take_drop)
  also have "\<dots> = xs" using ceil_div_covers [OF b(1), of "length xs"] by (simp add: m_def)
  finally show ?thesis .
qed

lemma main_inv:
  assumes "main e a w0 = Some (Inr (Finished st'), w')"
    "fs (start_world a w0) INPUT_FILE = Some (InputDoc all_posts)"
    "load_checkpoint (start_world a w0) = Inr ck"
  shows "batch_size a \<noteq> 0 \<and> remaining_posts ck all_posts \<noteq> [] \<and>
         (\<exists>starts. py_range 0 (int (length (remaining_posts ck all_posts))) (batch_size a) = Inr starts \<and>
            for_batch_start e a (remaining_posts ck all_posts) starts (initial_state a ck)
              (do_op (Mkdir OUTPUT_DIR) (start_world a w0)) = Some (Inr st', w'))"
  using assms
  unfolding main_def start_world_def [symmetric] remaining_posts_def [symmetric]
  by (auto simp: Let_def initial_state_def remaining_posts_def
        split: option.splits sum.splits prod.splits if_splits file_content.splits)


lemma for_post_info_returns:
  assumes "valid_env e" "cursors_end e N" "0 \<le> delay a" "0 \<le> backoff_base a"
  shows "\<exists>st' w'. for_post_info e a posts st w = Some (Inr st', w')"
proof (induction posts arbitrary: st w)
  case Nil
  then show ?case by simp
next
  case (Cons post posts)
  from download_returns [OF assms(2)] obtain res w1 where
    d: "download_comments_for_post e (py_str (post_id post))
          (delay a) (max_retries a) (backoff_base a) w = Some (res, w1)"
    by (metis surj_pair)
  from download_no_error [OF d assms(1,3,4)] obtain cs s where "res = Inr (cs, s)" by blast
  with d have d': "download_comments_for_post e (py_str (post_id post))
          (delay a) (max_retries a) (backoff_base a) w = Some (Inr (cs, s), w1)" by simp
  have "0 \<le> rnd e (rand_calls w1)" using assms(1) by (simp add: valid_env_def)
  with assms(3) have "0 \<le> delay a + 0.2 * rnd e (rand_calls w1)" by simp
  from for_post_info_step [OF d' this] Cons.IH show ?case by simp
qed

lemma for_batch_start_returns:
  assumes "valid_env e" "cursors_end e N" "0 \<le> delay a" "0 \<le> backoff_base a" "0 \<le> batch_delay a"
  shows "\<exists>st' w'. for_batch_start e a remaining starts st w = Some (Inr st', w')"
proof (induction starts arbitrary: st w)
  case Nil
  then show ?case by simp
next
  case (Cons s starts)
  from for_post_info_returns [OF assms(1,2,3,4)] obtain st1 w1 where
    i: "for_post_info e a (py_slice remaining s (s + batch_size a))
          (st\<lparr>batch_results := [], batch_comments := 0\<rparr>) w = Some (Inr st1, w1)"
    by blast
  have "0 \<le> rnd e (rand_calls w1)" using assms(1) by (simp add: valid_env_def)
  with assms(5) have "0 \<le> batch_delay a + 2 * rnd e (rand_calls w1)" by simp
  from for_batch_start_step [OF i this] Cons.IH show ?case by simp
qed


lemma main_finishes:
  assumes "valid_env e" "cursors_end e N" "valid_args a"
    "fs (start_world a w0) INPUT_FILE = Some (InputDoc all_posts)"
    "load_checkpoint (start_world a w0) = Inr ck" "remaining_posts ck all_posts \<noteq> []"
  shows "\<exists>st' w'. main e a w0 = Some (Inr (Finished st'), w')"
proof -
  have bs: "0 < batch_size a" and v: "0 \<le> delay a" "0 \<le> backoff_base a" "0 \<le> batch_delay a"
    using assms(3) by (simp_all add: valid_args_def)
  from for_batch_start_returns [OF assms(1,2) v] obtain st' w' where
    "for_batch_start e a (remaining_posts ck all_posts)
       (batch_starts (batch_size a) (length (remaining_posts ck all_posts)))
       (initial_state a ck) (do_op (Mkdir OUTPUT_DIR) (start_world a w0)) = Some (Inr st', w')"
    by blast
  with assms(4,5,6) bs py_range_batches [OF bs] show ?thesis
    unfolding main_def start_world_def [symmetric]
    by (simp add: Let_def remaining_posts_def initial_state_def)
qed

text \<open>The run as a whole.\<close>

lemma main_sound:
  assumes m: "main e a w0 = Some (Inr (Finished st'), w')"
    and inp: "fs (start_world a w0) INPUT_FILE = Some (InputDoc all_posts)"
    and ck: "load_checkpoint (start_world a w0) = Inr ck"
    and bs: "0 < batch_size a"
  shows "batches_done a (remaining_posts ck all_posts)
           (batch_starts (batch_size a) (length (remaining_posts ck all_posts)))
           (initial_state a ck) (do_op (Mkdir OUTPUT_DIR) (start_world a w0)) st' w'"
proof -
  from main_inv [OF m inp ck] py_range_batches [OF bs] have
    "for_batch_start e a (remaining_posts ck all_posts)
       (batch_starts (batch_size a) (length (remaining_posts ck all_posts)))
       (initial_state a ck) (do_op (Mkdir OUTPUT_DIR) (start_world a w0)) = Some (Inr st', w')"
    by auto
  then show ?thesis by (rule for_batch_start_sound)
qed



lemma start_world_trace: "\<exists>pre. trace (start_world a w0) = trace w0 @ pre \<and> calls pre = [] \<and>
    protocol pre = [] \<and> dumps pre = []"
  by (auto simp: start_world_def reset_checkpoint_def do_op_def protocol_def)

lemma input_not_special: "INPUT_FILE \<notin> SPECIAL"
  by (simp add: SPECIAL_def INPUT_FILE_def CHECKPOINT_FILE_def CHECKPOINT_TMP_def ERRORS_LOG_def)

lemma start_world_fs: "p \<noteq> CHECKPOINT_FILE \<Longrightarrow> fs (start_world a w0) p = fs w0 p"
  by (simp add: start_world_def reset_checkpoint_def do_op_def)


lemma concat_map_map: "concat (map (map f) xss) = map f (concat xss)"
  by (induction xss) auto

lemma run_summary:
  assumes m: "main e a w0 = Some (Inr (Finished st'), w')"
    and inp: "fs (start_world a w0) INPUT_FILE = Some (InputDoc all_posts)"
    and ck: "load_checkpoint (start_world a w0) = Inr ck"
    and bs: "0 < batch_size a"
  shows "\<exists>evs. trace w' = trace w0 @ evs \<and>
           protocol evs = concat (map per_item (remaining_posts ck all_posts)) \<and>
           map fst (dumps evs) =
             map (\<lambda>i. batch_file (batch_num (initial_state a ck) + int i))
               [0..<length (batch_starts (batch_size a) (length (remaining_posts ck all_posts)))] \<and>
           concat (map (\<lambda>d. map entry_post_id (snd d)) (dumps evs)) =
             map post_id (remaining_posts ck all_posts) \<and>
           completed st' =
             fold set_add (map (\<lambda>p. py_str (post_id p)) (remaining_posts ck all_posts))
               (py_set (completed_post_ids ck)) \<and>
           (\<forall>p. p \<notin> SPECIAL \<longrightarrow>
              fs w' p = (case last_dump (dumps evs) p of
                           None \<Rightarrow> fs w0 p | Some es \<Rightarrow> Some (BatchDoc es))) \<and>
           fs w' CHECKPOINT_FILE = Some (CheckpointDoc (ckpt st')) \<and>
           completed_post_ids (ckpt st') = completed st'"
proof -
  define rem where "rem = remaining_posts ck all_posts"
  define starts where "starts = batch_starts (batch_size a) (length rem)"
  define w1 where "w1 = do_op (Mkdir OUTPUT_DIR) (start_world a w0)"
  have cover: "concat (map (\<lambda>s. py_slice rem s (s + batch_size a)) starts) = rem"
    unfolding starts_def by (rule batches_cover [OF bs])
  have ne: "rem \<noteq> []" using main_inv [OF m inp ck] by (simp add: rem_def)
  from main_sound [OF m inp ck bs] obtain evs where t:
    "trace w' = trace w1 @ evs" "protocol evs = concat (map per_item rem)"
    "map fst (dumps evs) = map (\<lambda>i. batch_file (batch_num (initial_state a ck) + int i)) [0..<length starts]"
    "map (\<lambda>d. map entry_post_id (snd d)) (dumps evs) =
       map (map post_id) (map (\<lambda>s. py_slice rem s (s + batch_size a)) starts)"
    "completed st' = fold set_add (map (\<lambda>p. py_str (post_id p)) rem) (completed (initial_state a ck))"
    "\<forall>p. p \<notin> SPECIAL \<longrightarrow>
       fs w' p = (case last_dump (dumps evs) p of None \<Rightarrow> fs w1 p | Some es \<Rightarrow> Some (BatchDoc es))"
    "rem \<noteq> [] \<longrightarrow> fs w' CHECKPOINT_FILE = Some (CheckpointDoc (ckpt st')) \<and>
       completed_post_ids (ckpt st') = completed st'"
    unfolding batches_done_def Let_def rem_def [symmetric] starts_def [symmetric]
      w1_def [symmetric] cover
    by blast
  obtain pre where pre: "trace (start_world a w0) = trace w0 @ pre" "protocol pre = []" "dumps pre = []"
    using start_world_trace by blast
  let ?evs = "pre @ [Fs (Mkdir OUTPUT_DIR)] @ evs"
  have 1: "trace w' = trace w0 @ ?evs" using t(1) pre(1) by (simp add: w1_def do_op_def)
  have 2: "protocol ?evs = concat (map per_item rem)"
    using t(2) pre(2) by (simp add: protocol_append) (simp add: protocol_def)
  have dm: "dumps ?evs = dumps evs" using pre(3) by (simp add: dumps_append)
  have 4: "concat (map (\<lambda>d. map entry_post_id (snd d)) (dumps evs)) = map post_id rem"
    unfolding t(4) concat_map_map cover ..
  have 5: "completed st' = fold set_add (map (\<lambda>p. py_str (post_id p)) rem)
             (py_set (completed_post_ids ck))"
    using t(5) by (simp add: initial_state_def)
  have 6: "\<forall>p. p \<notin> SPECIAL \<longrightarrow>
       fs w' p = (case last_dump (dumps evs) p of None \<Rightarrow> fs w0 p | Some es \<Rightarrow> Some (BatchDoc es))"
  proof (intro allI impI)
    fix p assume p: "p \<notin> SPECIAL"
    then have "p \<noteq> CHECKPOINT_FILE" by (auto simp: SPECIAL_def)
    then have "fs w1 p = fs w0 p" by (simp add: w1_def do_op_def start_world_fs)
    with t(6) p show "fs w' p = (case last_dump (dumps evs) p of None \<Rightarrow> fs w0 p
                                 | Some es \<Rightarrow> Some (BatchDoc es))"
      by (simp split: option.splits)
  qed
  show ?thesis
    using 1 2 t(3) 4 5 6 t(7) ne
    unfolding dm [symmetric] rem_def starts_def
    by (intro exI [of _ ?evs] conjI) simp_all
qed


lemma py_str_digits:
  "py_str 7 = ''7''" "py_str 8 = ''8''" "py_str 9 = ''9''" "py_str 1 = ''1''"
  by (simp_all add: py_str_def str_nat.simps digit_char_def)

lemma valid_ex_args: "valid_args ex_args"
  by (simp add: valid_args_def ex_args_def)

lemma ex_no_reset: "start_world ex_args w = w"
  by (simp add: start_world_def ex_args_def)

lemma resumed_world_files:
  "fs resumed_world INPUT_FILE = Some (InputDoc ex_posts)"
  "load_checkpoint resumed_world = Inr ex_ckpt"
  by (simp_all add: resumed_world_def load_checkpoint_def INPUT_FILE_def CHECKPOINT_FILE_def)






lemma batch_file_inj: "batch_file i = batch_file j \<Longrightarrow> i = j"
  by (simp add: batch_file_def fmt_05d_inj)

lemma length_batch_starts:
  "0 < bs \<Longrightarrow> length (batch_starts bs n) = nat ((int n + bs - 1) div bs)"
  by (simp add: batch_starts_def)







lemma last_dump_member: "last_dump ds p = Some es \<Longrightarrow> (p, es) \<in> set ds"
  unfolding last_dump_def by (drule map_of_SomeD) simp



section \<open>The claims\<close>














text \<open>
  Claim C7, as amended. \<open>save_batch\<close> writes the group to the file named after the
  sequence number, whatever that file held before, leaves every other file as it was and
  returns the name of the file. A finished run with a positive batch size writes the
  group files numbered from its starting number on, one per batch, and leaves the group
  file of every other number as it was.
\<close>

theorem save_batch_replaces:
  assumes "main e a w0 = Some (Inr (Finished st'), w')"
    "fs (start_world a w0) INPUT_FILE = Some (InputDoc all_posts)"
    "load_checkpoint (start_world a w0) = Inr ck" "0 < batch_size a"
  shows "(\<forall>results n w. fs (snd (save_batch results n w)) = (fs w)(batch_file n \<mapsto> BatchDoc results) \<and>
            fst (save_batch results n w) = batch_file n) \<and>
         (\<forall>n. n < int (card (set (completed_post_ids ck))) div batch_size a + 1 \<or>
              int (card (set (completed_post_ids ck))) div batch_size a + 1 +
                (int (length (remaining_posts ck all_posts)) + batch_size a - 1) div batch_size a \<le> n
              \<longrightarrow> fs w' (batch_file n) = fs w0 (batch_file n))"
proof (intro conjI allI impI)
  fix results n w
  show "fs (snd (save_batch results n w)) = (fs w)(batch_file n \<mapsto> BatchDoc results)"
    by (simp add: save_batch_def do_op_def Let_def)
  show "fst (save_batch results n w) = batch_file n"
    by (simp add: save_batch_def Let_def)
next
  fix n
  define b0 where "b0 = int (card (set (completed_post_ids ck))) div batch_size a + 1"
  define m where "m = nat ((int (length (remaining_posts ck all_posts)) + batch_size a - 1)
                          div batch_size a)"
  assume "n < int (card (set (completed_post_ids ck))) div batch_size a + 1 \<or>
      int (card (set (completed_post_ids ck))) div batch_size a + 1 +
        (int (length (remaining_posts ck all_posts)) + batch_size a - 1) div batch_size a \<le> n"
  then have out: "n < b0 \<or> b0 + int m \<le> n"
    unfolding b0_def m_def by auto
  from run_summary [OF assms] obtain evs where t:
    "map fst (dumps evs) =
       map (\<lambda>i. batch_file (batch_num (initial_state a ck) + int i))
         [0..<length (batch_starts (batch_size a) (length (remaining_posts ck all_posts)))]"
    "\<forall>p. p \<notin> SPECIAL \<longrightarrow>
       fs w' p = (case last_dump (dumps evs) p of None \<Rightarrow> fs w0 p | Some es \<Rightarrow> Some (BatchDoc es))"
    by blast
  have bn: "batch_num (initial_state a ck) = b0"
    by (simp add: initial_state_def py_set_def length_remdups_card_conv b0_def)
  have paths: "map fst (dumps evs) = map (\<lambda>i. batch_file (b0 + int i)) [0..<m]"
    using t(1) by (simp add: bn length_batch_starts [OF assms(4)] m_def)
  have "last_dump (dumps evs) (batch_file n) = None"
  proof (rule ccontr)
    assume "last_dump (dumps evs) (batch_file n) \<noteq> None"
    then obtain es where "last_dump (dumps evs) (batch_file n) = Some es" by blast
    then have "(batch_file n, es) \<in> set (dumps evs)" by (rule last_dump_member)
    then have "batch_file n \<in> set (map fst (dumps evs))" by force
    then obtain i where "i < m" "batch_file n = batch_file (b0 + int i)"
      unfolding paths by auto
    then have "n = b0 + int i" "i < m" using batch_file_inj by blast+
    with out show False by linarith
  qed
  with t(2) batch_file_not_special [of n]
  show "fs w' (batch_file n) = fs w0 (batch_file n)" by simp
qed

theorem save_batch_replaces_witness:
  "\<exists>st' w'. main ex_env ex_args resumed_world = Some (Inr (Finished st'), w') \<and>
     0 < batch_size ex_args \<and> (3::int) \<le> 5 \<and>
     fs w' (batch_file 5) = fs resumed_world (batch_file 5) \<and>
     fs w' (batch_file 0) = fs resumed_world (batch_file 0)"
proof -
  have f: "fs (start_world ex_args resumed_world) INPUT_FILE = Some (InputDoc ex_posts)"
    "load_checkpoint (start_world ex_args resumed_world) = Inr ex_ckpt"
    by (simp_all add: ex_no_reset resumed_world_files)
  have bs: "0 < batch_size ex_args" by (simp add: ex_args_def)
  have rem: "remaining_posts ex_ckpt ex_posts =
             [\<lparr>post_id = 8, comment_count = 0\<rparr>, \<lparr>post_id = 9, comment_count = 1\<rparr>]"
    by (simp add: remaining_posts_def ex_posts_def ex_ckpt_def py_str_digits py_set_def)
  then have ne: "remaining_posts ex_ckpt ex_posts \<noteq> []" by simp
  from main_finishes [OF valid_ex_env cursors_end_ex_env valid_ex_args f ne] obtain st' w' where
    m: "main ex_env ex_args resumed_world = Some (Inr (Finished st'), w')" by blast
  note sb = save_batch_replaces [OF m f bs, THEN conjunct2, rule_format]
  have len: "int (length (remaining_posts ex_ckpt ex_posts)) = 2" unfolding rem by simp
  have crd: "int (card (set (completed_post_ids ex_ckpt))) = 1" by (simp add: ex_ckpt_def)
  have "fs w' (batch_file 5) = fs resumed_world (batch_file 5)"
    by (rule sb) (simp add: len crd ex_args_def)
  moreover have "fs w' (batch_file 0) = fs resumed_world (batch_file 0)"
    by (rule sb) (simp add: len crd ex_args_def)
  ultimately show ?thesis using m bs by auto
qed

theorem save_batch_replaces_counterexample:
  "fs written_world (batch_file 2) = Some (BatchDoc [old_entry]) \<and>
   fs (snd (save_batch [new_entry] 2 written_world)) (batch_file 2) = Some (BatchDoc [new_entry]) \<and>
   BatchDoc [new_entry] \<noteq> BatchDoc [old_entry]"
  by (simp add: save_batch_def do_op_def Let_def written_world_def old_entry_def new_entry_def)



text \<open>
  Claim C9. In any state of the page loop, a not-found response after \<open>k\<close> failed
  attempts on the page ends the fetch at once: the request that got it is the last event,
  no file changes, and the fetch returns the records accumulated so far with status
  \<open>404_not_found\<close>. The coordinator appends exactly one entry with that status and those
  records for the post and leaves the error tally as it was.
\<close>

theorem not_found_ends_fetch:
  assumes "valid_env e" "0 \<le> bb" "u \<noteq> []" "k < nat mr"
    "\<forall>i<k. is_failure (respond e (requests_made w + i) u)"
    "is_gone (respond e (requests_made w + k) u)"
  shows "(\<exists>w' pre. page_loop e pid dl mr bb (Some u) acc page w =
             Some (Inr (acc, ''404_not_found''), w') \<and>
           trace w' = trace w @ pre @ [Request u (respond e (requests_made w + k) u)] \<and>
           list_all net_event pre \<and>
           outcomes pre = map (\<lambda>i. respond e (requests_made w + i) u) [0..<k] \<and>
           fs w' = fs w \<and> requests_made w' = requests_made w + k + 1) \<and>
         (\<forall>a post posts st cs w0 w1.
            download_comments_for_post e (py_str (post_id post))
              (delay a) (max_retries a) (backoff_base a) w0 =
              Some (Inr (cs, ''404_not_found''), w1) \<and> 0 \<le> delay a \<longrightarrow>
            (\<exists>st1 w4. for_post_info e a (post # posts) st w0 = for_post_info e a posts st1 w4 \<and>
               errors_count st1 = errors_count st \<and>
               batch_results st1 =
                 batch_results st @
                   [\<lparr>entry_post_id = post_id post, expected_comment_count = comment_count post,
                     actual_comment_count = int (length cs), status = ''404_not_found'',
                     comments = cs\<rparr>]))"
proof (intro conjI allI impI)
  show "\<exists>w' pre. page_loop e pid dl mr bb (Some u) acc page w =
             Some (Inr (acc, ''404_not_found''), w') \<and>
           trace w' = trace w @ pre @ [Request u (respond e (requests_made w + k) u)] \<and>
           list_all net_event pre \<and>
           outcomes pre = map (\<lambda>i. respond e (requests_made w + i) u) [0..<k] \<and>
           fs w' = fs w \<and> requests_made w' = requests_made w + k + 1"
    using assms by (rule page_loop_gone)
next
  fix a :: args and post :: post_info and posts :: "post_info list" and st :: run_state
    and cs :: "comment list" and w0 w1 :: world
  assume h: "download_comments_for_post e (py_str (post_id post))
              (delay a) (max_retries a) (backoff_base a) w0 =
              Some (Inr (cs, ''404_not_found''), w1) \<and> 0 \<le> delay a"
  then have d: "download_comments_for_post e (py_str (post_id post))
              (delay a) (max_retries a) (backoff_base a) w0 =
              Some (Inr (cs, ''404_not_found''), w1)" by simp
  have "0 \<le> rnd e (rand_calls w1)" using assms(1) by (simp add: valid_env_def)
  with h have j: "0 \<le> delay a + 0.2 * rnd e (rand_calls w1)" by simp
  define st1 where "st1 = fst (record_outcome e post (post_id post) cs ''404_not_found'' st w1)"
  define w4 where "w4 = paused e a (snd (record_outcome e post (post_id post) cs ''404_not_found'' st w1))"
  have "for_post_info e a (post # posts) st w0 = for_post_info e a posts st1 w4"
    unfolding st1_def w4_def by (rule for_post_info_step [OF d j])
  moreover have "errors_count st1 = errors_count st"
    by (simp add: st1_def record_outcome_state)
  moreover have "batch_results st1 =
                 batch_results st @
                   [\<lparr>entry_post_id = post_id post, expected_comment_count = comment_count post,
                     actual_comment_count = int (length cs), status = ''404_not_found'',
                     comments = cs\<rparr>]"
    by (simp add: st1_def record_outcome_state)
  ultimately show "\<exists>st1 w4. for_post_info e a (post # posts) st w0 = for_post_info e a posts st1 w4 \<and>
               errors_count st1 = errors_count st \<and>
               batch_results st1 =
                 batch_results st @
                   [\<lparr>entry_post_id = post_id post, expected_comment_count = comment_count post,
                     actual_comment_count = int (length cs), status = ''404_not_found'',
                     comments = cs\<rparr>]"
    by blast
qed

theorem not_found_ends_fetch_witness:
  "valid_env gone_env \<and> (0::real) \<le> 10 \<and> initial_url ''8'' \<noteq> [] \<and> (0::nat) < nat 5 \<and>
   is_gone (respond gone_env (requests_made ex_world + 0) (initial_url ''8'')) \<and>
   (0::real) \<le> delay ex_args \<and>
   (\<exists>w1. download_comments_for_post gone_env (py_str 8) (delay ex_args) (max_retries ex_args)
            (backoff_base ex_args) ex_world = Some (Inr ([], ''404_not_found''), w1) \<and>
      fs w1 = fs ex_world \<and> requests_made w1 = 1) \<and>
   (\<exists>st1 w4. for_post_info gone_env ex_args [\<lparr>post_id = 8, comment_count = 0\<rparr>] ex_state ex_world =
               Some (Inr st1, w4) \<and>
             errors_count st1 = 0 \<and>
             batch_results st1 =
               [\<lparr>entry_post_id = 8, expected_comment_count = 0, actual_comment_count = 0,
                 status = ''404_not_found'', comments = []\<rparr>])"
proof -
  have v: "valid_env gone_env" "(0::real) \<le> 10" "initial_url ''8'' \<noteq> []" "(0::nat) < nat 5"
    by (simp_all add: valid_env_def gone_env_def initial_url_nonempty)
  have w: "requests_made (ex_world\<lparr>trace := trace ex_world @ [Call_download ''8'']\<rparr>) = 0"
    by (simp add: ex_world_def)
  have f: "\<forall>i<0. is_failure (respond gone_env
             (requests_made (ex_world\<lparr>trace := trace ex_world @ [Call_download ''8'']\<rparr>) + i)
             (initial_url ''8''))"
    by simp
  have g: "is_gone (respond gone_env
             (requests_made (ex_world\<lparr>trace := trace ex_world @ [Call_download ''8'']\<rparr>) + 0)
             (initial_url ''8''))"
    by (simp add: gone_env_def)
  note nf = not_found_ends_fetch [OF v f g, where pid = "''8''" and dl = "delay ex_args"
      and acc = "[]" and page = 0]
  from nf obtain w1 where d:
    "page_loop gone_env ''8'' (delay ex_args) 5 10 (Some (initial_url ''8'')) [] 0
       (ex_world\<lparr>trace := trace ex_world @ [Call_download ''8'']\<rparr>) =
     Some (Inr ([], ''404_not_found''), w1)"
    "fs w1 = fs (ex_world\<lparr>trace := trace ex_world @ [Call_download ''8'']\<rparr>)"
    "requests_made w1 =
       requests_made (ex_world\<lparr>trace := trace ex_world @ [Call_download ''8'']\<rparr>) + 0 + 1"
    by blast
  have d': "download_comments_for_post gone_env (py_str 8) (delay ex_args) (max_retries ex_args)
            (backoff_base ex_args) ex_world = Some (Inr ([], ''404_not_found''), w1)"
    using d(1) by (simp add: download_comments_for_post_def py_str_digits ex_args_def)
  have dl: "(0::real) \<le> delay ex_args" by (simp add: ex_args_def)
  let ?post = "\<lparr>post_id = 8, comment_count = 0\<rparr>"
  have d'': "download_comments_for_post gone_env (py_str (post_id ?post)) (delay ex_args)
            (max_retries ex_args) (backoff_base ex_args) ex_world =
            Some (Inr ([], ''404_not_found''), w1) \<and> 0 \<le> delay ex_args"
    using d' dl by simp
  note step = nf [THEN conjunct2, rule_format, where a = ex_args and post = ?post
      and posts = "[]" and st = ex_state and cs = "[]" and ?w0.0 = ex_world and ?w1.0 = w1,
      OF d'']
  from step obtain st1 w4 where s:
    "for_post_info gone_env ex_args [?post] ex_state ex_world =
       for_post_info gone_env ex_args [] st1 w4"
    "errors_count st1 = errors_count ex_state"
    "batch_results st1 =
       batch_results ex_state @
         [\<lparr>entry_post_id = post_id ?post,
           expected_comment_count = comment_count ?post,
           actual_comment_count = int (length ([]::comment list)), status = ''404_not_found'',
           comments = []\<rparr>]"
    by (elim exE conjE)
  have "for_post_info gone_env ex_args [\<lparr>post_id = 8, comment_count = 0\<rparr>] ex_state ex_world =
               Some (Inr st1, w4) \<and>
             errors_count st1 = 0 \<and>
             batch_results st1 =
               [\<lparr>entry_post_id = 8, expected_comment_count = 0, actual_comment_count = 0,
                 status = ''404_not_found'', comments = []\<rparr>]"
    using s by (simp add: ex_state_def)
  moreover have "fs w1 = fs ex_world \<and> requests_made w1 = 1" using d(2,3) w by simp
  moreover have "is_gone (respond gone_env (requests_made ex_world + 0) (initial_url ''8''))"
    by (simp add: gone_env_def)
  ultimately show ?thesis using v d' dl by blast
qed




end
